theory Spec2Isabelle
  imports Complex_Main "HOL-Library.List_Lexorder" "HOL-Library.Char_ord"
begin

section \<open>Python floats\<close>

text \<open>
  A Python float is an IEEE 754 binary64 number: a finite value, one of the two
  infinities, or NaN. A finite double is written \<open>Fin x\<close> with \<open>x\<close> its exact value; every
  operation below rounds its exact result to the nearest double, a tie going to the even
  significand, as the hardware does. The sign of zero is not modelled (Python compares
  \<open>-0.0\<close> and \<open>0.0\<close> equal).
\<close>

datatype error =
    FileNotFoundError
  | JSONDecodeError string
  | KeyError string
  | ZeroDivisionError
  | OverflowError
  | AttributeError
  | ValueError
  | TypeError

datatype double = Fin real | PInf | NInf | NaN

text \<open>The number of binary digits of a natural number.\<close>

fun blen :: "nat \<Rightarrow> nat" where
  "blen n = (if n = 0 then 0 else Suc (blen (n div 2)))"

declare blen.simps [simp del]

definition pow2 :: "int \<Rightarrow> real" where
  "pow2 k = (if 0 \<le> k then 2 ^ nat k else 1 / 2 ^ nat (- k))"

text \<open>The binary exponent \<open>e\<close> of a positive number: \<open>2 ^ e \<le> a < 2 ^ (e + 1)\<close>.\<close>

definition binade :: "real \<Rightarrow> int" where
  "binade a = (if 1 \<le> a then int (blen (nat \<lfloor>a\<rfloor>)) - 1
               else - int (blen (nat (\<lceil>1 / a\<rceil> - 1))))"

text \<open>Rounding to the nearest integer, a tie going to the even one.\<close>

definition rhe :: "real \<Rightarrow> int" where
  "rhe y = (let f = \<lfloor>y\<rfloor>; d = y - of_int f
            in if d < 1 / 2 then f else if 1 / 2 < d then f + 1
               else if even f then f else f + 1)"

text \<open>
  The double nearest to a real number. The significand has 53 bits, so the spacing of
  the doubles around \<open>x\<close> is \<open>2 ^ (e - 52)\<close>, with \<open>e\<close> never below \<open>-1022\<close> (the subnormal
  range); a result of magnitude \<open>2 ^ 1024\<close> is an infinity. This is also the value Python
  gives a decimal literal, in source text and in JSON.
\<close>

definition rnd :: "real \<Rightarrow> double" where
  "rnd x =
     (if x = 0 then Fin 0
      else let e = max (binade \<bar>x\<bar>) (- 1022);
               y = of_int (rhe (x / pow2 (e - 52))) * pow2 (e - 52)
           in if 1024 \<le> e \<or> (e = 1023 \<and> \<bar>y\<bar> = pow2 1024)
              then (if 0 < x then PInf else NInf) else Fin y)"

text \<open>\<open>float(n)\<close> for an int, also where an int meets a float in an operation.\<close>

definition int_to_double :: "int \<Rightarrow> error + double" where
  "int_to_double n = (case rnd (of_int n) of Fin y \<Rightarrow> Inr (Fin y) | _ \<Rightarrow> Inl OverflowError)"

fun fl_neg :: "double \<Rightarrow> double" where
  "fl_neg (Fin a) = Fin (- a)"
| "fl_neg PInf = NInf"
| "fl_neg NInf = PInf"
| "fl_neg NaN = NaN"

fun fl_add :: "double \<Rightarrow> double \<Rightarrow> double" where
  "fl_add NaN b = NaN"
| "fl_add a NaN = NaN"
| "fl_add (Fin a) (Fin b) = rnd (a + b)"
| "fl_add PInf NInf = NaN"
| "fl_add NInf PInf = NaN"
| "fl_add PInf b = PInf"
| "fl_add NInf b = NInf"
| "fl_add a PInf = PInf"
| "fl_add a NInf = NInf"

definition fl_sub :: "double \<Rightarrow> double \<Rightarrow> double" where
  "fl_sub a b = fl_add a (fl_neg b)"

text \<open>\<open>a < b\<close> and \<open>a <= b\<close>: every comparison with NaN is false.\<close>

fun fl_lt :: "double \<Rightarrow> double \<Rightarrow> bool" where
  "fl_lt NaN b = False"
| "fl_lt a NaN = False"
| "fl_lt (Fin a) (Fin b) = (a < b)"
| "fl_lt PInf b = False"
| "fl_lt a NInf = False"
| "fl_lt NInf b = True"
| "fl_lt a PInf = True"

fun fl_le :: "double \<Rightarrow> double \<Rightarrow> bool" where
  "fl_le NaN b = False"
| "fl_le a NaN = False"
| "fl_le (Fin a) (Fin b) = (a \<le> b)"
| "fl_le NInf b = True"
| "fl_le a PInf = True"
| "fl_le PInf b = False"
| "fl_le a NInf = False"

text \<open>
  \<open>x ** 2\<close> on a float is the C library's \<open>pow(x, 2.0)\<close>, taken here as the correctly
  rounded square; Python raises \<open>OverflowError\<close> when a finite \<open>x\<close> has a square beyond
  the double range.
\<close>

fun py_pow2 :: "double \<Rightarrow> error + double" where
  "py_pow2 (Fin a) = (case rnd (a * a) of Fin y \<Rightarrow> Inr (Fin y) | _ \<Rightarrow> Inl OverflowError)"
| "py_pow2 NaN = Inr NaN"
| "py_pow2 PInf = Inr PInf"
| "py_pow2 NInf = Inr PInf"

text \<open>
  \<open>a / b\<close> on floats: a zero divisor raises \<open>ZeroDivisionError\<close>, whatever the dividend;
  an overflowing quotient is an infinity.
\<close>

fun fl_div :: "double \<Rightarrow> double \<Rightarrow> error + double" where
  "fl_div a (Fin b) =
     (if b = 0 then Inl ZeroDivisionError
      else case a of
             Fin x \<Rightarrow> Inr (rnd (x / b))
           | NaN \<Rightarrow> Inr NaN
           | PInf \<Rightarrow> Inr (if 0 < b then PInf else NInf)
           | NInf \<Rightarrow> Inr (if 0 < b then NInf else PInf))"
| "fl_div a NaN = Inr NaN"
| "fl_div (Fin x) b = Inr (Fin 0)"
| "fl_div a b = Inr NaN"

text \<open>\<open>x / n\<close> with a float and an int: the int is converted first.\<close>

definition float_div_int :: "double \<Rightarrow> int \<Rightarrow> error + double" where
  "float_div_int x n = (case int_to_double n of Inl e \<Rightarrow> Inl e | Inr d \<Rightarrow> fl_div x d)"

text \<open>\<open>a / b\<close> with two ints: the correctly rounded quotient.\<close>

definition int_truediv :: "int \<Rightarrow> int \<Rightarrow> error + double" where
  "int_truediv a b =
     (if b = 0 then Inl ZeroDivisionError
      else case rnd (of_int a / of_int b) of Fin y \<Rightarrow> Inr (Fin y) | _ \<Rightarrow> Inl OverflowError)"

text \<open>
  \<open>sum(xs)\<close> on a list of floats: the items are added from left to right, starting from
  the int 0. (CPython 3.12 and later add floats with a compensated algorithm, which can
  differ from this in the last bit on lists of three or more items.)
\<close>

definition py_sum :: "double list \<Rightarrow> double" where
  "py_sum xs = foldl fl_add (Fin 0) xs"

text \<open>
  \<open>round(x, nd)\<close> on a float: the exact value of \<open>x\<close> is rounded to \<open>nd\<close> decimal places,
  a tie going to the even digit, and the result is the double nearest to that decimal;
  an infinity or NaN is returned unchanged.
\<close>

fun py_round :: "double \<Rightarrow> nat \<Rightarrow> double" where
  "py_round (Fin x) nd = rnd (of_int (rhe (x * 10 ^ nd)) / 10 ^ nd)"
| "py_round d nd = d"

section \<open>analyze\_results.py: the attempt record\<close>

text \<open>
  One decoded line of the log: a JSON object whose fields have the types of the log
  format. A field that the object lacks is \<open>None\<close>. The two numbers are floats, as the
  Producer writes them, and may be \<open>NaN\<close> or an infinity, which \<open>json.loads\<close> accepts.
  The \<open>query\<close> field is never read by the analysis and is left out.
\<close>

record attempt =
  model :: "string option"
  category :: "string option"
  intent :: "string option"
  confidence :: "double option"
  duration :: "double option"

text \<open>\<open>r[k]\<close> raises \<open>KeyError\<close> on a missing key; \<open>r.get(k, d)\<close> returns \<open>d\<close>.\<close>

definition subscript :: "string \<Rightarrow> 'a option \<Rightarrow> error + 'a" where
  "subscript k v = (case v of None \<Rightarrow> Inl (KeyError k) | Some x \<Rightarrow> Inr x)"

definition get :: "'a option \<Rightarrow> 'a \<Rightarrow> 'a" where
  "get v d = (case v of None \<Rightarrow> d | Some x \<Rightarrow> x)"

text \<open>
  Lines 48 and 49: \<open>is_correct\<close> and \<open>brier_score\<close> of one record. The difference of the
  float and the int is a float, and so is its square.
\<close>

definition is_correct :: "string \<Rightarrow> string \<Rightarrow> int" where
  "is_correct true_intent predicted_intent = (if true_intent = predicted_intent then 1 else 0)"

definition record_brier_score :: "double \<Rightarrow> int \<Rightarrow> error + double" where
  "record_brier_score conf correct =
     (case int_to_double correct of
        Inl e \<Rightarrow> Inl e
      | Inr c \<Rightarrow> py_pow2 (fl_sub conf c))"

section \<open>Step 1: aggregation into group statistics\<close>

record stats =
  brier_scores :: "double list"
  correct_count :: int
  total_count :: int
  durations :: "double list"

text \<open>The value the \<open>defaultdict\<close> factory creates for a key seen for the first time.\<close>

definition new_stats :: stats where
  "new_stats = \<lparr>brier_scores = [], correct_count = 0, total_count = 0, durations = []\<rparr>"

text \<open>Lines 53 to 56 (and 60 to 63): the four updates of one group.\<close>

definition add_to_stats :: "double \<Rightarrow> int \<Rightarrow> double \<Rightarrow> stats \<Rightarrow> stats" where
  "add_to_stats b c d st =
     st\<lparr>brier_scores := brier_scores st @ [b],
        correct_count := correct_count st + c,
        total_count := total_count st + 1,
        durations := durations st @ [d]\<rparr>"

text \<open>
  A Python dict keeps its keys in insertion order, and the winner loops depend on that
  order, so a dict is an association list. \<open>dd_update k d f\<close> is \<open>f\<close> applied in place to
  \<open>dd[k]\<close> of a \<open>defaultdict\<close> whose factory returns \<open>d\<close>: a missing key is appended.
\<close>

fun dd_update :: "'k \<Rightarrow> 'v \<Rightarrow> ('v \<Rightarrow> 'v) \<Rightarrow> ('k \<times> 'v) list \<Rightarrow> ('k \<times> 'v) list" where
  "dd_update k d f [] = [(k, f d)]"
| "dd_update k d f ((k', v) # kvs) =
     (if k' = k then (k', f v) # kvs else (k', v) # dd_update k d f kvs)"

type_synonym model_stats = "(string \<times> stats) list"
type_synonym agg_state = "(string \<times> model_stats) list \<times> model_stats"

text \<open>
  The body of the loop of lines 41 to 63, on the pair of both dicts. Line 49 can raise
  before any of the dicts is touched.
\<close>

definition add_result :: "attempt \<Rightarrow> agg_state \<Rightarrow> error + agg_state" where
  "add_result r s =
     (case subscript ''model'' (model r) of
        Inl e \<Rightarrow> Inl e
      | Inr m \<Rightarrow>
     (case subscript ''category'' (category r) of
        Inl e \<Rightarrow> Inl e
      | Inr true_intent \<Rightarrow>
          let predicted_intent = get (intent r) ''unknown'';
              conf = get (confidence r) (Fin 0);
              dur = get (duration r) (Fin 0);
              correct = is_correct true_intent predicted_intent
          in (case record_brier_score conf correct of
                Inl e \<Rightarrow> Inl e
              | Inr b \<Rightarrow>
                  let upd = dd_update m new_stats (add_to_stats b correct dur)
                  in Inr (dd_update true_intent [] upd (fst s), upd (snd s)))))"

fun aggregate :: "attempt list \<Rightarrow> agg_state \<Rightarrow> error + agg_state" where
  "aggregate [] s = Inr s"
| "aggregate (r # rs) s =
     (case add_result r s of Inl e \<Rightarrow> Inl e | Inr s' \<Rightarrow> aggregate rs s')"

section \<open>Steps 2 and 3: winner selection\<close>

text \<open>
  The three guarded quotients, each written three times in the source (lines 77, 99, 121;
  84, 106, 128; 85, 107, 122). A non-empty list and a positive count are truthy. The
  \<open>else 0\<close> of the last two is the int 0, which no group reaches; it is written as the
  float of the same value.
\<close>

definition avg_brier :: "stats \<Rightarrow> error + double" where
  "avg_brier st =
     (if brier_scores st \<noteq> []
      then float_div_int (py_sum (brier_scores st)) (int (length (brier_scores st)))
      else Inr PInf)"

definition accuracy_of :: "stats \<Rightarrow> error + double" where
  "accuracy_of st =
     (if total_count st > 0
      then int_truediv (correct_count st) (total_count st)
      else Inr (Fin 0))"

definition avg_duration_of :: "stats \<Rightarrow> error + double" where
  "avg_duration_of st =
     (if durations st \<noteq> []
      then float_div_int (py_sum (durations st)) (int (length (durations st)))
      else Inr (Fin 0))"

text \<open>
  The inner loop of lines 76 to 80 (and 98 to 102), on the pair
  \<open>(best_model, lowest_brier_score)\<close>, which starts as \<open>(None, PInf)\<close>.
\<close>

fun select_best ::
  "model_stats \<Rightarrow> string option \<times> double \<Rightarrow> error + string option \<times> double" where
  "select_best [] bl = Inr bl"
| "select_best ((m, st) # rest) bl =
     (case avg_brier st of
        Inl e \<Rightarrow> Inl e
      | Inr a \<Rightarrow> if fl_lt a (snd bl) then select_best rest (Some m, a)
                else select_best rest bl)"

record winner =
  best_model :: string
  brier_score :: double
  accuracy :: double
  average_duration :: double

text \<open>\<open>dd[k]\<close> read from a \<open>defaultdict\<close> whose factory returns \<open>d\<close>.\<close>

definition dd_get :: "('k \<times> 'v) list \<Rightarrow> 'k \<Rightarrow> 'v \<Rightarrow> 'v" where
  "dd_get kvs k d = (case map_of kvs k of None \<Rightarrow> d | Some v \<Rightarrow> v)"

text \<open>
  Lines 82 to 92 (and 104 to 114): the entry written for the selected model. The test
  \<open>if best_model:\<close> is Python truthiness, so \<open>None\<close> and the empty string both write
  nothing. The overall entry has the same four values under the key \<open>model\<close> instead of
  \<open>best_model\<close>.
\<close>

definition winner_entry ::
  "model_stats \<Rightarrow> string option \<times> double \<Rightarrow> error + winner option" where
  "winner_entry groups bl =
     (case fst bl of
        None \<Rightarrow> Inr None
      | Some m \<Rightarrow>
          if m = [] then Inr None
          else let winner_stats = dd_get groups m new_stats in
            (case accuracy_of winner_stats of
               Inl e \<Rightarrow> Inl e
             | Inr acc \<Rightarrow>
            (case avg_duration_of winner_stats of
               Inl e \<Rightarrow> Inl e
             | Inr avg_duration \<Rightarrow>
                 Inr (Some \<lparr>best_model = m,
                            brier_score = py_round (snd bl) 4,
                            accuracy = py_round acc 4,
                            average_duration = py_round avg_duration 2\<rparr>))))"

definition scope_winner :: "model_stats \<Rightarrow> error + winner option" where
  "scope_winner groups =
     (case select_best groups (None, PInf) of
        Inl e \<Rightarrow> Inl e
      | Inr bl \<Rightarrow> winner_entry groups bl)"

text \<open>\<open>d[k] = v\<close> on a plain dict: an existing key keeps its place.\<close>

definition dict_set :: "'k \<Rightarrow> 'v \<Rightarrow> ('k \<times> 'v) list \<Rightarrow> ('k \<times> 'v) list" where
  "dict_set k v kvs = dd_update k v (\<lambda>_. v) kvs"

text \<open>The outer loop of lines 72 to 92 over \<open>category_model_stats.items()\<close>.\<close>

fun per_category_loop ::
  "(string \<times> model_stats) list \<Rightarrow> (string \<times> winner) list \<Rightarrow> error + (string \<times> winner) list" where
  "per_category_loop [] acc = Inr acc"
| "per_category_loop ((c, models_data) # rest) acc =
     (case scope_winner models_data of
        Inl e \<Rightarrow> Inl e
      | Inr None \<Rightarrow> per_category_loop rest acc
      | Inr (Some w) \<Rightarrow> per_category_loop rest (dict_set c w acc))"

section \<open>Step 4: the summary table\<close>

record row =
  row_model :: string
  correct_predictions :: int
  incorrect_predictions :: int
  row_accuracy :: double
  row_brier_score :: double
  row_average_duration :: double

text \<open>Lines 119 to 131: one row. The source evaluates the quotients in this order.\<close>

definition table_row :: "string \<times> stats \<Rightarrow> error + row" where
  "table_row ms =
     (case avg_brier (snd ms) of
        Inl e \<Rightarrow> Inl e
      | Inr avg_b \<Rightarrow>
     (case avg_duration_of (snd ms) of
        Inl e \<Rightarrow> Inl e
      | Inr avg_duration \<Rightarrow>
     (case accuracy_of (snd ms) of
        Inl e \<Rightarrow> Inl e
      | Inr acc \<Rightarrow>
          Inr \<lparr>row_model = fst ms,
               correct_predictions = correct_count (snd ms),
               incorrect_predictions = total_count (snd ms) - correct_count (snd ms),
               row_accuracy = py_round acc 4,
               row_brier_score = py_round avg_b 4,
               row_average_duration = py_round avg_duration 2\<rparr>)))"

fun table_loop :: "model_stats \<Rightarrow> row list \<Rightarrow> error + row list" where
  "table_loop [] table_data = Inr table_data"
| "table_loop (ms # rest) table_data =
     (case table_row ms of
        Inl e \<Rightarrow> Inl e
      | Inr rw \<Rightarrow> table_loop rest (table_data @ [rw]))"

text \<open>
  \<open>sorted(overall_model_stats.items())\<close> orders the pairs by their first component, the
  model identifier, compared as Python compares strings: lexicographically, character by
  character. The keys of a dict are distinct, so the second component is never compared.
\<close>

definition sorted_items :: "model_stats \<Rightarrow> model_stats" where
  "sorted_items kvs = sort_key fst kvs"

record summary =
  per_category :: "(string \<times> winner) list"
  overall_winner :: "winner option"
  model_performance_summary :: "row list"

text \<open>Lines 37 to 132: from the decoded records to the summary document.\<close>

definition build_summary :: "attempt list \<Rightarrow> error + summary" where
  "build_summary results =
     (case aggregate results ([], []) of
        Inl e \<Rightarrow> Inl e
      | Inr s \<Rightarrow>
     (case per_category_loop (fst s) [] of
        Inl e \<Rightarrow> Inl e
      | Inr pc \<Rightarrow>
     (case scope_winner (snd s) of
        Inl e \<Rightarrow> Inl e
      | Inr ow \<Rightarrow>
     (case table_loop (sorted_items (snd s)) [] of
        Inl e \<Rightarrow> Inl e
      | Inr table_data \<Rightarrow>
          Inr \<lparr>per_category = pc, overall_winner = ow,
               model_performance_summary = table_data\<rparr>))))"

section \<open>analyze\_log\_file: ingestion and outcome\<close>

text \<open>
  The file system is a map from a path to the lines of the file there. \<open>json.loads\<close> is
  a library function: it is the parameter \<open>loads\<close>, which returns the decoded record or
  the text of the \<open>JSONDecodeError\<close>. The list comprehension of line 25 stops at the
  first line that raises.
\<close>

fun load_lines :: "(string \<Rightarrow> string + attempt) \<Rightarrow> string list \<Rightarrow> error + attempt list" where
  "load_lines loads [] = Inr []"
| "load_lines loads (line # rest) =
     (case loads line of
        Inl msg \<Rightarrow> Inl (JSONDecodeError msg)
      | Inr r \<Rightarrow>
     (case load_lines loads rest of
        Inl e \<Rightarrow> Inl e
      | Inr rs \<Rightarrow> Inr (r # rs)))"

text \<open>
  How a run ends: the function returns, \<open>sys.exit(n)\<close> is called, or an exception that
  no handler catches ends the process with a traceback and status 1.
\<close>

datatype ending = Returned | SysExit int | Uncaught error

fun exit_status :: "ending \<Rightarrow> int" where
  "exit_status Returned = 0"
| "exit_status (SysExit n) = n"
| "exit_status (Uncaught e) = 1"

record outcome =
  ended :: ending
  printed :: "string list"
  summary_json :: "(string \<times> summary) option"

text \<open>\<open>os.path.basename\<close> and \<open>str.replace('.jsonl', '')\<close>, for the output path.\<close>

definition basename :: "string \<Rightarrow> string" where
  "basename p = rev (takeWhile (\<lambda>c. c \<noteq> CHR ''/'') (rev p))"

fun remove_jsonl :: "string \<Rightarrow> string" where
  "remove_jsonl [] = []"
| "remove_jsonl (c # cs) =
     (if take 6 (c # cs) = ''.jsonl'' then remove_jsonl (drop 5 cs)
      else c # remove_jsonl cs)"

definition json_summary_path :: "string \<Rightarrow> string" where
  "json_summary_path filepath =
     ''analysis_for_'' @ remove_jsonl (basename filepath) @ ''/summary.json''"

definition quoted :: "string \<Rightarrow> string" where
  "quoted s = [CHR 0x27] @ s @ [CHR 0x27]"

text \<open>
  The \<open>try\<close> block of lines 23 to 25: opening a path without a file raises
  \<open>FileNotFoundError\<close>, and the comprehension raises at the first undecodable line.
\<close>

definition read_results ::
  "(string \<Rightarrow> string list option) \<Rightarrow> (string \<Rightarrow> string + attempt) \<Rightarrow> string
     \<Rightarrow> error + attempt list" where
  "read_results fs loads filepath =
     (case fs filepath of
        None \<Rightarrow> Inl FileNotFoundError
      | Some file_lines \<Rightarrow> load_lines loads file_lines)"

text \<open>
  Lines 22 to 143, with the two handlers of lines 26 to 31. The optional table and plots
  written after \<open>summary.json\<close> (lines 145 to 170) are presentation and are not modelled;
  \<open>printed\<close> stops at line 143.
\<close>

definition analyze_log_file ::
  "(string \<Rightarrow> string list option) \<Rightarrow> (string \<Rightarrow> string + attempt) \<Rightarrow> string \<Rightarrow> outcome" where
  "analyze_log_file fs loads filepath =
     (let out0 = [''Analyzing log file: '' @ filepath] in
      case read_results fs loads filepath of
        Inl FileNotFoundError \<Rightarrow>
          \<lparr>ended = SysExit 1,
           printed = out0 @ [''Error: Log file not found at '' @ quoted filepath],
           summary_json = None\<rparr>
      | Inl (JSONDecodeError e) \<Rightarrow>
          \<lparr>ended = SysExit 1,
           printed = out0 @ [''Error: Could not decode JSON from '' @ quoted filepath
                             @ ''. Invalid format on line. '' @ e],
           summary_json = None\<rparr>
      | Inl e \<Rightarrow> \<lparr>ended = Uncaught e, printed = out0, summary_json = None\<rparr>
      | Inr results \<Rightarrow>
          if results = []
          then \<lparr>ended = Returned,
                printed = out0 @ [''Log file is empty. Nothing to analyze.''],
                summary_json = None\<rparr>
          else
            (case build_summary results of
               Inl e \<Rightarrow> \<lparr>ended = Uncaught e, printed = out0, summary_json = None\<rparr>
             | Inr s \<Rightarrow>
                 \<lparr>ended = Returned,
                  printed = out0 @ [''JSON summary saved to: '' @ json_summary_path filepath],
                  summary_json = Some (json_summary_path filepath, s)\<rparr>))"

section \<open>run\_tests.py: one attempt and the benchmark loop\<close>

text \<open>
  Text is a string of characters, each a Unicode code point below 256; text with other
  code points is outside the model.

  A JSON value. A number without fraction and exponent is an int, any other number a
  float; \<open>NaN\<close>, \<open>Infinity\<close> and \<open>-Infinity\<close> are floats, as Python's \<open>json\<close> reads
  and writes them. What \<open>json.loads\<close> returns for an object is a dict, so the keys of
  that object are distinct.
\<close>

datatype json =
    JNull
  | JBool bool
  | JInt int
  | JFloat double
  | JStr string
  | JArr "json list"
  | JObj "(string \<times> json) list"

text \<open>
  What \<open>requests.post\<close>, \<open>raise_for_status\<close> and \<open>response.json()\<close> give for one call:
  a \<open>RequestException\<close> (connection failure, timeout after 60 seconds, HTTP error status,
  undecodable body), or the decoded body with the elapsed time measured at line 70.
\<close>

datatype http_reply = RequestException string | Reply json double

text \<open>
  The collaborators of the Producer: the inference service (a function of the model and
  the prompt), \<open>json.loads\<close> and the string case of \<open>float()\<close>.
\<close>

record world =
  post_generate :: "string \<Rightarrow> string \<Rightarrow> http_reply"
  json_loads :: "string \<Rightarrow> string + json"
  str_to_float :: "string \<Rightarrow> double option"

text \<open>\<open>v.get(k, d)\<close>: only a dict has the method.\<close>

fun json_get :: "json \<Rightarrow> string \<Rightarrow> json \<Rightarrow> error + json" where
  "json_get (JObj kvs) k d = Inr (case map_of kvs k of None \<Rightarrow> d | Some v \<Rightarrow> v)"
| "json_get v k d = Inl AttributeError"

text \<open>
  \<open>str.strip()\<close> removes the leading and trailing white space, the characters for
  which \<open>str.isspace\<close> holds. Below 256 these are the code points 9 to 13, 28 to 32, 133
  (U+0085) and 160 (U+00A0).
\<close>

definition is_space :: "char \<Rightarrow> bool" where
  "is_space c = (of_char c \<in> {9, 10, 11, 12, 13, 28, 29, 30, 31, 32, 133, 160 :: nat})"

definition py_strip :: "string \<Rightarrow> string" where
  "py_strip s = rev (dropWhile is_space (rev (dropWhile is_space s)))"

fun json_strip :: "json \<Rightarrow> error + string" where
  "json_strip (JStr s) = Inr (py_strip s)"
| "json_strip v = Inl AttributeError"

text \<open>
  Lines 48 to 75. The handler of line 73 catches the request failure and returns
  \<open>(None, 0)\<close>; an \<open>AttributeError\<close> of line 72 is not caught.
\<close>

definition run_intent_classification_http ::
  "world \<Rightarrow> string \<Rightarrow> string \<Rightarrow> string \<Rightarrow> error + string option \<times> double" where
  "run_intent_classification_http w mdl system_prompt user_query =
     (case post_generate w mdl (system_prompt @ [CHR 0x0A] @ ''User: '' @ user_query) of
        RequestException e \<Rightarrow> Inr (None, Fin 0)
      | Reply data dur \<Rightarrow>
     (case json_get data ''response'' (JStr []) of
        Inl e \<Rightarrow> Inl e
      | Inr v \<Rightarrow>
     (case json_strip v of
        Inl e \<Rightarrow> Inl e
      | Inr text \<Rightarrow> Inr (Some text, dur))))"

text \<open>
  \<open>float(v)\<close> on a decoded JSON value: an int beyond the double range raises
  \<open>OverflowError\<close>; a string is parsed, and may denote \<open>nan\<close> or an infinity.
\<close>

fun py_float :: "world \<Rightarrow> json \<Rightarrow> error + double" where
  "py_float w (JFloat x) = Inr x"
| "py_float w (JInt n) = int_to_double n"
| "py_float w (JBool b) = Inr (Fin (if b then 1 else 0))"
| "py_float w (JStr s) = (case str_to_float w s of None \<Rightarrow> Inl ValueError | Some x \<Rightarrow> Inr x)"
| "py_float w v = Inl TypeError"

record log_record =
  log_model :: string
  log_category :: string
  log_query :: string
  log_intent :: json
  log_confidence :: double
  log_duration :: double

text \<open>
  Lines 191 to 200: the \<open>try\<close> block with its single handler, for
  \<open>json.JSONDecodeError\<close>. The result is the pair \<open>(intent, confidence)\<close>.
\<close>

definition parse_response :: "world \<Rightarrow> string \<Rightarrow> error + json \<times> double" where
  "parse_response w response_text =
     (case json_loads w response_text of
        Inl msg \<Rightarrow> Inr (JStr ''error'', Fin 0)
      | Inr parsed \<Rightarrow>
     (case json_get parsed ''intent'' (JStr ''unknown'') of
        Inl e \<Rightarrow> Inl e
      | Inr intent_v \<Rightarrow>
     (case json_get parsed ''confidence'' JNull of
        Inl e \<Rightarrow> Inl e
      | Inr raw_confidence \<Rightarrow>
     (case (if raw_confidence \<noteq> JNull then py_float w raw_confidence else Inr (Fin 0)) of
        Inl e \<Rightarrow> Inl e
      | Inr conf \<Rightarrow> Inr (intent_v, conf)))))"

text \<open>
  Lines 186 to 210, the body of the innermost loop: \<open>Inr None\<close> is the \<open>continue\<close> of
  line 189, \<open>Inr (Some r)\<close> the record written at line 210, \<open>Inl e\<close> an exception that
  leaves the loop.
\<close>

definition attempt_step ::
  "world \<Rightarrow> string \<Rightarrow> string \<Rightarrow> string \<Rightarrow> string \<Rightarrow> error + log_record option" where
  "attempt_step w system_prompt mdl cat query =
     (case run_intent_classification_http w mdl system_prompt query of
        Inl e \<Rightarrow> Inl e
      | Inr (response_text, dur) \<Rightarrow>
     (case response_text of
        None \<Rightarrow> Inr None
      | Some text \<Rightarrow>
     (case parse_response w text of
        Inl e \<Rightarrow> Inl e
      | Inr (intent_v, conf) \<Rightarrow>
          Inr (Some \<lparr>log_model = mdl, log_category = cat, log_query = query,
                     log_intent = intent_v, log_confidence = conf,
                     log_duration = py_round dur 2\<rparr>))))"

text \<open>
  The three nested loops of lines 182 to 210 over the models, the items of
  \<open>test_queries\<close> and the queries of a category. The state is the list of records written
  to the log so far; an uncaught exception ends the run and keeps what was written.
\<close>

fun query_loop ::
  "world \<Rightarrow> string \<Rightarrow> string \<Rightarrow> string \<Rightarrow> string list \<Rightarrow> log_record list
     \<Rightarrow> error option \<times> log_record list" where
  "query_loop w sp mdl cat [] f = (None, f)"
| "query_loop w sp mdl cat (q # qs) f =
     (case attempt_step w sp mdl cat q of
        Inl e \<Rightarrow> (Some e, f)
      | Inr None \<Rightarrow> query_loop w sp mdl cat qs f
      | Inr (Some r) \<Rightarrow> query_loop w sp mdl cat qs (f @ [r]))"

fun category_loop ::
  "world \<Rightarrow> string \<Rightarrow> string \<Rightarrow> (string \<times> string list) list \<Rightarrow> log_record list
     \<Rightarrow> error option \<times> log_record list" where
  "category_loop w sp mdl [] f = (None, f)"
| "category_loop w sp mdl ((cat, queries) # rest) f =
     (case query_loop w sp mdl cat queries f of
        (Some e, f') \<Rightarrow> (Some e, f')
      | (None, f') \<Rightarrow> category_loop w sp mdl rest f')"

fun model_loop ::
  "world \<Rightarrow> string \<Rightarrow> (string \<times> string list) list \<Rightarrow> string list \<Rightarrow> log_record list
     \<Rightarrow> error option \<times> log_record list" where
  "model_loop w sp test_queries [] f = (None, f)"
| "model_loop w sp test_queries (mdl # rest) f =
     (case category_loop w sp mdl test_queries f of
        (Some e, f') \<Rightarrow> (Some e, f')
      | (None, f') \<Rightarrow> model_loop w sp test_queries rest f')"

section \<open>The summary document, json.dump and json.load\<close>

text \<open>
  The Python values that \<open>json.dump\<close> accepts. The key of a dict entry can be a string,
  an int, a bool or \<open>None\<close> (a float key is left out).
\<close>

datatype pykey = KStr string | KInt int | KBool bool | KNone

datatype py =
    PNone
  | PBool bool
  | PInt int
  | PFloat double
  | PStr string
  | PList "py list"
  | PTuple "py list"
  | PDict "(pykey \<times> py) list"

text \<open>
  The dict that lines 65 to 132 build and line 142 hands to \<open>json.dump\<close>: an entry for a
  category (lines 87 to 92), the overall entry, which stays the empty dict of line 67
  when no winner is written (lines 109 to 114), and a table row (lines 124 to 131).
\<close>

definition winner_doc :: "string \<Rightarrow> winner \<Rightarrow> py" where
  "winner_doc name_key w =
     PDict [(KStr name_key, PStr (best_model w)),
            (KStr ''brier_score'', PFloat (brier_score w)),
            (KStr ''accuracy'', PFloat (accuracy w)),
            (KStr ''average_duration'', PFloat (average_duration w))]"

definition row_doc :: "row \<Rightarrow> py" where
  "row_doc rw =
     PDict [(KStr ''model'', PStr (row_model rw)),
            (KStr ''correct_predictions'', PInt (correct_predictions rw)),
            (KStr ''incorrect_predictions'', PInt (incorrect_predictions rw)),
            (KStr ''accuracy'', PFloat (row_accuracy rw)),
            (KStr ''brier_score'', PFloat (row_brier_score rw)),
            (KStr ''average_duration'', PFloat (row_average_duration rw))]"

definition summary_doc :: "summary \<Rightarrow> py" where
  "summary_doc S =
     PDict [(KStr ''per_category'',
               PDict (map (\<lambda>cw. (KStr (fst cw), winner_doc ''best_model'' (snd cw)))
                          (per_category S))),
            (KStr ''overall_winner'',
               (case overall_winner S of
                  None \<Rightarrow> PDict []
                | Some w \<Rightarrow> winner_doc ''model'' w)),
            (KStr ''model_performance_summary'',
               PList (map row_doc (model_performance_summary S)))]"

text \<open>
  Modelled from the documentation of the \<open>json\<close> module, at the level of the JSON
  document (the written text is its concrete syntax). Encoding: a dict becomes an
  object, a list or tuple an array, a str a string, an int or float a number, \<open>True\<close>,
  \<open>False\<close> and \<open>None\<close> become \<open>true\<close>, \<open>false\<close> and \<open>null\<close>; the keys of a dict are
  coerced to strings; with the default \<open>allow_nan\<close>, NaN and the infinities are written
  as \<open>NaN\<close>, \<open>Infinity\<close> and \<open>-Infinity\<close>. Decoding: an object becomes a dict, built
  from its pairs in order, an array a list, a string a str, an int number an int, a
  real number a float.
\<close>

fun digits :: "nat \<Rightarrow> string" where
  "digits n =
     (if n < 10 then [char_of (48 + n)]
      else digits (n div 10) @ [char_of (48 + n mod 10)])"

declare digits.simps [simp del]

definition str_of_int :: "int \<Rightarrow> string" where
  "str_of_int i = (if i < 0 then CHR ''-'' # digits (nat (- i)) else digits (nat i))"

fun key_text :: "pykey \<Rightarrow> string" where
  "key_text (KStr s) = s"
| "key_text (KInt i) = str_of_int i"
| "key_text (KBool b) = (if b then ''true'' else ''false'')"
| "key_text KNone = ''null''"

fun json_dump :: "py \<Rightarrow> json" where
  "json_dump PNone = JNull"
| "json_dump (PBool b) = JBool b"
| "json_dump (PInt i) = JInt i"
| "json_dump (PFloat d) = JFloat d"
| "json_dump (PStr s) = JStr s"
| "json_dump (PList xs) = JArr (map json_dump xs)"
| "json_dump (PTuple xs) = JArr (map json_dump xs)"
| "json_dump (PDict kvs) = JObj (map (\<lambda>kv. (key_text (fst kv), json_dump (snd kv))) kvs)"

text \<open>\<open>dict(pairs)\<close>: a later pair with the same key replaces the value of the earlier.\<close>

definition dict_of_pairs :: "('k \<times> 'v) list \<Rightarrow> ('k \<times> 'v) list" where
  "dict_of_pairs kvs = foldl (\<lambda>d kv. dict_set (fst kv) (snd kv) d) [] kvs"

fun json_load :: "json \<Rightarrow> py" where
  "json_load JNull = PNone"
| "json_load (JBool b) = PBool b"
| "json_load (JInt i) = PInt i"
| "json_load (JFloat d) = PFloat d"
| "json_load (JStr s) = PStr s"
| "json_load (JArr xs) = PList (map json_load xs)"
| "json_load (JObj kvs) =
     PDict (dict_of_pairs (map (\<lambda>kv. (KStr (fst kv), json_load (snd kv))) kvs))"

text \<open>
  The values that the documentation promises to read back unchanged: no tuple, and in
  every dict only string keys (which a dict holds once each).
\<close>

fun is_str_key :: "pykey \<Rightarrow> bool" where
  "is_str_key (KStr s) = True"
| "is_str_key k = False"

fun json_native :: "py \<Rightarrow> bool" where
  "json_native (PList xs) = list_all json_native xs"
| "json_native (PTuple xs) = False"
| "json_native (PDict kvs) =
     (distinct (map fst kvs) \<and> list_all (\<lambda>kv. is_str_key (fst kv) \<and> json_native (snd kv)) kvs)"
| "json_native v = True"

section \<open>Reference notions: grouping as the specification words it\<close>

text \<open>
  The definitions of this section are not translations of code. They say, on the record
  sequence itself, what the specification calls a group, its average calibration score
  and the winner of a scope; the theorems compare the code with them.
\<close>

definition in_category :: "string \<Rightarrow> attempt list \<Rightarrow> attempt list" where
  "in_category c rs = filter (\<lambda>r. category r = Some c) rs"

definition of_model :: "string \<Rightarrow> attempt list \<Rightarrow> attempt list" where
  "of_model m rs = filter (\<lambda>r. model r = Some m) rs"

definition predicted_of :: "attempt \<Rightarrow> string" where
  "predicted_of r = (case intent r of None \<Rightarrow> ''unknown'' | Some p \<Rightarrow> p)"

definition confidence_of :: "attempt \<Rightarrow> double" where
  "confidence_of r = (case confidence r of None \<Rightarrow> Fin 0 | Some c \<Rightarrow> c)"

definition duration_of :: "attempt \<Rightarrow> double" where
  "duration_of r = (case duration r of None \<Rightarrow> Fin 0 | Some d \<Rightarrow> d)"

definition correct_of :: "attempt \<Rightarrow> int" where
  "correct_of r = (if category r = Some (predicted_of r) then 1 else 0)"

text \<open>
  The calibration score of a record: the float square of the float difference. A log
  that the aggregation accepts has no record whose square overflows, so the \<open>NaN\<close> of the
  raising case is never a score of a group.
\<close>

definition score_of :: "attempt \<Rightarrow> double" where
  "score_of r =
     (case py_pow2 (fl_sub (confidence_of r) (Fin (of_int (correct_of r)))) of
        Inr b \<Rightarrow> b
      | Inl e \<Rightarrow> NaN)"

text \<open>The statistics of a group, from the records that belong to it.\<close>

definition group_stats :: "attempt list \<Rightarrow> stats" where
  "group_stats rs =
     \<lparr>brier_scores = map score_of rs,
      correct_count = sum_list (map correct_of rs),
      total_count = int (length rs),
      durations = map duration_of rs\<rparr>"

text \<open>The distinct elements of a list, in the order of their first appearance.\<close>

definition first_seen :: "'a list \<Rightarrow> 'a list" where
  "first_seen xs = rev (remdups (rev xs))"

definition model_groups :: "attempt list \<Rightarrow> model_stats" where
  "model_groups rs =
     map (\<lambda>m. (m, group_stats (of_model m rs))) (first_seen (List.map_filter model rs))"

definition category_groups :: "attempt list \<Rightarrow> (string \<times> model_stats) list" where
  "category_groups rs =
     map (\<lambda>c. (c, model_groups (in_category c rs))) (first_seen (List.map_filter category rs))"

text \<open>
  The average of a list of floats: their float sum divided by their count. The \<open>NaN\<close>
  of the raising cases (an empty list, a count beyond the double range) does not occur
  for a group whose average the code has computed.
\<close>

definition mean :: "double list \<Rightarrow> double" where
  "mean xs =
     (case float_div_int (py_sum xs) (int (length xs)) of
        Inr a \<Rightarrow> a
      | Inl e \<Rightarrow> NaN)"

definition mean_score :: "attempt list \<Rightarrow> string \<Rightarrow> double" where
  "mean_score rs m = mean (map score_of (of_model m rs))"

text \<open>
  \<open>first_lowest rs m\<close>: in the scope \<open>rs\<close>, the model \<open>m\<close> has an attempt and an average
  below infinity; every record before the first record of \<open>m\<close> belongs to a model whose
  average is not at or below that of \<open>m\<close> (it is higher, or NaN); and no model has a
  lower average. So \<open>m\<close> is the first model, in order of first appearance, among those of
  lowest average.
\<close>

definition first_lowest :: "attempt list \<Rightarrow> string \<Rightarrow> bool" where
  "first_lowest rs m =
     (of_model m rs \<noteq> [] \<and> fl_lt (mean_score rs m) PInf \<and>
      (\<forall>r' \<in> set (takeWhile (\<lambda>r. model r \<noteq> Some m) rs).
         case model r' of
           None \<Rightarrow> True
         | Some m' \<Rightarrow> \<not> fl_le (mean_score rs m') (mean_score rs m)) \<and>
      (\<forall>r' \<in> set rs.
         case model r' of
           None \<Rightarrow> True
         | Some m' \<Rightarrow> \<not> fl_lt (mean_score rs m') (mean_score rs m)))"

text \<open>No model of the scope has an average below infinity: each is infinite or NaN.\<close>

definition no_finite_average :: "attempt list \<Rightarrow> bool" where
  "no_finite_average rs =
     (\<forall>r \<in> set rs. case model r of None \<Rightarrow> True | Some m \<Rightarrow> \<not> fl_lt (mean_score rs m) PInf)"

text \<open>Record normalization as the specification words it: the defaults made explicit.\<close>

definition fill_defaults :: "attempt \<Rightarrow> attempt" where
  "fill_defaults r =
     r\<lparr>intent := Some (predicted_of r),
       confidence := Some (confidence_of r),
       duration := Some (duration_of r)\<rparr>"

text \<open>Every record has the two keys that the analysis reads with \<open>r[k]\<close>.\<close>

definition well_keyed :: "attempt list \<Rightarrow> bool" where
  "well_keyed rs = (\<forall>r \<in> set rs. model r \<noteq> None \<and> category r \<noteq> None)"

text \<open>No record has a score that raises at line 49.\<close>

definition scorable :: "attempt list \<Rightarrow> bool" where
  "scorable rs =
     (\<forall>r \<in> set rs. record_brier_score (confidence_of r) (correct_of r) = Inr (score_of r))"

text \<open>The average that line 77 computes for a group, as a plain value.\<close>

definition avg_val :: "stats \<Rightarrow> double" where
  "avg_val st = (case avg_brier st of Inr a \<Rightarrow> a | Inl e \<Rightarrow> NaN)"

text \<open>The three fields of a table row that lines 125 to 127 copy from a group.\<close>

definition row_of :: "string \<times> stats \<Rightarrow> row \<Rightarrow> bool" where
  "row_of ms rw =
     (row_model rw = fst ms \<and> correct_predictions rw = correct_count (snd ms) \<and>
      incorrect_predictions rw = total_count (snd ms) - correct_count (snd ms))"

lemma first_seen_Nil [simp]: "first_seen [] = []"
  by (simp add: first_seen_def)

lemma first_seen_snoc:
  "first_seen (xs @ [x]) = (if x \<in> set xs then first_seen xs else first_seen xs @ [x])"
  by (simp add: first_seen_def)

lemma set_first_seen [simp]: "set (first_seen xs) = set xs"
  by (simp add: first_seen_def)

lemma distinct_first_seen [simp]: "distinct (first_seen xs)"
  by (simp add: first_seen_def)

lemma map_filter_snoc:
  "List.map_filter f (xs @ [x]) = List.map_filter f xs @ (case f x of None \<Rightarrow> [] | Some y \<Rightarrow> [y])"
  by (simp add: List.map_filter_def split: option.splits)

lemma set_map_filter: "set (List.map_filter f xs) = {y. \<exists>x \<in> set xs. f x = Some y}"
  by (force simp: List.map_filter_def)

lemma dd_update_new:
  "k \<notin> set ks \<Longrightarrow> dd_update k d f (map (\<lambda>x. (x, g x)) ks) = map (\<lambda>x. (x, g x)) ks @ [(k, f d)]"
  by (induction ks) auto

lemma dd_update_old:
  "k \<in> set ks \<Longrightarrow> distinct ks \<Longrightarrow>
   dd_update k d f (map (\<lambda>x. (x, g x)) ks) = map (\<lambda>x. (x, if x = k then f (g x) else g x)) ks"
  by (induction ks) auto

lemma group_stats_Nil: "group_stats [] = new_stats"
  by (simp add: group_stats_def new_stats_def)

lemma group_stats_snoc:
  "group_stats (rs @ [r]) = add_to_stats (score_of r) (correct_of r) (duration_of r) (group_stats rs)"
  by (simp add: group_stats_def add_to_stats_def)

lemma group_stats_single:
  "group_stats [r] = add_to_stats (score_of r) (correct_of r) (duration_of r) new_stats"
  by (simp add: group_stats_def add_to_stats_def new_stats_def)

lemma of_model_snoc:
  "of_model m (rs @ [r]) = (if model r = Some m then of_model m rs @ [r] else of_model m rs)"
  by (simp add: of_model_def)

lemma of_model_empty: "m \<notin> set (List.map_filter model rs) \<Longrightarrow> of_model m rs = []"
  by (auto simp: of_model_def set_map_filter filter_empty_conv)

lemma model_groups_snoc:
  assumes "model r = Some m"
  shows "dd_update m new_stats (add_to_stats (score_of r) (correct_of r) (duration_of r)) (model_groups rs)
         = model_groups (rs @ [r])"
proof (cases "m \<in> set (List.map_filter model rs)")
  case True
  then show ?thesis using assms
    by (simp add: model_groups_def map_filter_snoc first_seen_snoc dd_update_old
        of_model_snoc group_stats_snoc)
next
  case False
  then show ?thesis using assms
    by (simp add: model_groups_def map_filter_snoc first_seen_snoc dd_update_new
        of_model_snoc group_stats_snoc of_model_empty group_stats_single)
qed


lemma in_category_snoc:
  "in_category c (rs @ [r]) = (if category r = Some c then in_category c rs @ [r] else in_category c rs)"
  by (simp add: in_category_def)

lemma in_category_empty: "c \<notin> set (List.map_filter category rs) \<Longrightarrow> in_category c rs = []"
  by (auto simp: in_category_def set_map_filter filter_empty_conv)

lemma model_groups_Nil [simp]: "model_groups [] = []"
  by (simp add: model_groups_def List.map_filter_def)

lemma category_groups_Nil [simp]: "category_groups [] = []"
  by (simp add: category_groups_def List.map_filter_def)

lemma category_groups_snoc:
  assumes "model r = Some m" and "category r = Some c"
  shows "dd_update c []
           (dd_update m new_stats (add_to_stats (score_of r) (correct_of r) (duration_of r)))
           (category_groups rs)
         = category_groups (rs @ [r])"
proof (cases "c \<in> set (List.map_filter category rs)")
  case True
  then show ?thesis using assms
    by (simp add: category_groups_def map_filter_snoc first_seen_snoc dd_update_old
        in_category_snoc model_groups_snoc)
next
  case False
  then show ?thesis using assms model_groups_snoc [of r m "[]"]
    by (simp add: category_groups_def map_filter_snoc first_seen_snoc dd_update_new
        in_category_snoc in_category_empty)
qed


lemma int_to_double_0 [simp]: "int_to_double 0 = Inr (Fin 0)"
  by (simp add: int_to_double_def rnd_def)

lemma int_to_double_1 [simp]: "int_to_double 1 = Inr (Fin 1)"
  by (simp add: int_to_double_def rnd_def binade_def rhe_def pow2_def Let_def blen.simps)

lemma record_brier_score_correct_of:
  "record_brier_score conf (correct_of r) = py_pow2 (fl_sub conf (Fin (of_int (correct_of r))))"
  by (simp add: record_brier_score_def correct_of_def)

lemma py_pow2_error: "py_pow2 d = Inl e \<Longrightarrow> e = OverflowError"
  by (cases d) (auto split: double.splits)

lemma record_brier_score_Inr:
  "record_brier_score (confidence_of r) (correct_of r) = Inr b \<Longrightarrow> b = score_of r"
  by (simp add: record_brier_score_correct_of score_of_def)

lemma record_brier_score_Inl:
  "record_brier_score (confidence_of r) (correct_of r) = Inl e \<Longrightarrow> e = OverflowError"
  by (simp add: record_brier_score_correct_of py_pow2_error)

lemma get_intent: "get (intent r) ''unknown'' = predicted_of r"
  by (simp add: get_def predicted_of_def)

lemma get_confidence: "get (confidence r) (Fin 0) = confidence_of r"
  by (simp add: get_def confidence_of_def)

lemma get_duration: "get (duration r) (Fin 0) = duration_of r"
  by (simp add: get_def duration_of_def)

lemma is_correct_correct_of:
  "category r = Some c \<Longrightarrow> is_correct c (predicted_of r) = correct_of r"
  by (auto simp: is_correct_def correct_of_def)

text \<open>The loop body on a record that has both keys.\<close>

lemma add_result_keyed:
  assumes "model r = Some m" and "category r = Some c"
  shows "add_result r s =
           (case record_brier_score (confidence_of r) (correct_of r) of
              Inl e \<Rightarrow> Inl e
            | Inr b \<Rightarrow>
                Inr (dd_update c []
                       (dd_update m new_stats (add_to_stats b (correct_of r) (duration_of r)))
                       (fst s),
                     dd_update m new_stats (add_to_stats b (correct_of r) (duration_of r))
                       (snd s)))"
  using assms
  by (simp add: add_result_def subscript_def Let_def get_intent get_confidence get_duration
      is_correct_correct_of split: sum.splits)

lemma add_result_groups:
  assumes "model r = Some m" and "category r = Some c"
    and "record_brier_score (confidence_of r) (correct_of r) = Inr (score_of r)"
  shows "add_result r (category_groups rs, model_groups rs)
         = Inr (category_groups (rs @ [r]), model_groups (rs @ [r]))"
  using category_groups_snoc [OF assms(1,2), of rs] model_groups_snoc [OF assms(1), of rs]
  by (simp add: add_result_keyed [OF assms(1,2)] assms(3))

lemma add_result_KeyError:
  "model r = None \<Longrightarrow> add_result r s = Inl (KeyError ''model'')"
  "model r \<noteq> None \<Longrightarrow> category r = None \<Longrightarrow> add_result r s = Inl (KeyError ''category'')"
  by (auto simp: add_result_def subscript_def)

lemma add_result_Inr:
  assumes "add_result r s = Inr s'"
  shows "model r \<noteq> None \<and> category r \<noteq> None \<and>
         record_brier_score (confidence_of r) (correct_of r) = Inr (score_of r)"
proof (cases "model r")
  case None
  then show ?thesis using assms by (simp add: add_result_KeyError)
next
  case m: (Some m)
  show ?thesis
  proof (cases "category r")
    case None
    then show ?thesis using assms m by (simp add: add_result_KeyError)
  next
    case (Some c)
    then show ?thesis
      using assms m record_brier_score_Inr [of r]
      by (auto simp: add_result_keyed [OF m Some] split: sum.splits)
  qed
qed

lemma add_result_Inl:
  assumes "add_result r s = Inl e"
  shows "e = KeyError ''model'' \<or> e = KeyError ''category'' \<or> e = OverflowError"
proof (cases "model r")
  case None
  then show ?thesis using assms by (simp add: add_result_KeyError)
next
  case m: (Some m)
  show ?thesis
  proof (cases "category r")
    case None
    then show ?thesis using assms m by (simp add: add_result_KeyError)
  next
    case (Some c)
    then show ?thesis
      using assms m record_brier_score_Inl [of r]
      by (auto simp: add_result_keyed [OF m Some] split: sum.splits)
  qed
qed

lemma aggregate_groups_from:
  "well_keyed rs \<Longrightarrow> scorable rs \<Longrightarrow>
   aggregate rs (category_groups hist, model_groups hist)
   = Inr (category_groups (hist @ rs), model_groups (hist @ rs))"
proof (induction rs arbitrary: hist)
  case Nil
  then show ?case by simp
next
  case (Cons r rs)
  from Cons.prems obtain m c where mc: "model r = Some m" "category r = Some c"
    by (auto simp: well_keyed_def)
  have sc: "record_brier_score (confidence_of r) (correct_of r) = Inr (score_of r)"
    using Cons.prems(2) by (simp add: scorable_def)
  have wk: "well_keyed rs" "scorable rs"
    using Cons.prems by (simp_all add: well_keyed_def scorable_def)
  show ?case
    using Cons.IH [OF wk, of "hist @ [r]"] by (simp add: add_result_groups [OF mc sc])
qed

lemma aggregate_groups:
  "well_keyed rs \<Longrightarrow> scorable rs \<Longrightarrow>
   aggregate rs ([], []) = Inr (category_groups rs, model_groups rs)"
  using aggregate_groups_from [of rs "[]"] by simp

lemma aggregate_Inr_accepts:
  "aggregate rs s = Inr s' \<Longrightarrow> well_keyed rs \<and> scorable rs"
proof (induction rs arbitrary: s)
  case Nil
  then show ?case by (simp add: well_keyed_def scorable_def)
next
  case (Cons r rs)
  from Cons.prems obtain s1 where s1: "add_result r s = Inr s1" "aggregate rs s1 = Inr s'"
    by (auto split: sum.splits)
  from add_result_Inr [OF s1(1)] Cons.IH [OF s1(2)] show ?case
    by (simp add: well_keyed_def scorable_def)
qed

lemma aggregate_Inl:
  "aggregate rs s = Inl e \<Longrightarrow>
   e = KeyError ''model'' \<or> e = KeyError ''category'' \<or> e = OverflowError"
proof (induction rs arbitrary: s)
  case Nil
  then show ?case by simp
next
  case (Cons r rs)
  then show ?case
    by (cases "add_result r s") (auto dest: add_result_Inl)
qed

lemma aggregate_rejects:
  "\<not> well_keyed rs \<Longrightarrow> \<exists>e. aggregate rs s = Inl e"
  using aggregate_Inr_accepts [of rs s] by (cases "aggregate rs s") auto

lemma blen_lower: "0 < n \<Longrightarrow> 2 ^ (blen n - 1) \<le> n"
proof (induction n rule: blen.induct)
  case (1 n)
  show ?case
  proof (cases "n div 2 = 0")
    case True
    then have "blen n = 1" using "1.prems" by (simp add: blen.simps)
    then show ?thesis using "1.prems" by simp
  next
    case False
    then have h: "2 ^ (blen (n div 2) - 1) \<le> n div 2" using "1.IH" "1.prems" by simp
    have pos: "0 < blen (n div 2)" using False by (simp add: blen.simps)
    have "blen n - 1 = Suc (blen (n div 2) - 1)" using "1.prems" pos by (simp add: blen.simps)
    then have "(2::nat) ^ (blen n - 1) = 2 * 2 ^ (blen (n div 2) - 1)" by simp
    also have "\<dots> \<le> 2 * (n div 2)" using h by simp
    also have "\<dots> \<le> n" by simp
    finally show ?thesis .
  qed
qed

lemma rhe_cases: "rhe t = \<lfloor>t\<rfloor> \<or> (rhe t = \<lfloor>t\<rfloor> + 1 \<and> 1 / 2 \<le> t - of_int \<lfloor>t\<rfloor>)"
  by (auto simp: rhe_def Let_def)


lemma rhe_ge_int: "of_int N \<le> t \<Longrightarrow> N \<le> rhe t"
proof -
  assume "of_int N \<le> t"
  then have "N \<le> \<lfloor>t\<rfloor>" by (simp add: le_floor_iff)
  then show ?thesis using rhe_cases [of t] by auto
qed



text \<open>A number that is at least 1 does not round to zero.\<close>

lemma rnd_ge_1:
  assumes "1 \<le> x"
  shows "rnd x \<noteq> Fin 0 \<and> rnd x \<noteq> NaN"
proof -
  define n where "n = nat \<lfloor>x\<rfloor>"
  have n: "0 < n" "real n \<le> x" using assms by (auto simp: n_def)
  define e where "e = int (blen n) - 1"
  have bl: "0 < blen n" using n(1) by (simp add: blen.simps)
  have b: "binade \<bar>x\<bar> = e" using assms by (simp add: binade_def e_def n_def)
  have e0: "0 \<le> e" using bl by (simp add: e_def)
  then have m: "max (binade \<bar>x\<bar>) (- 1022) = e" using b by simp
  have le: "pow2 (e - 52) \<le> x"
  proof (cases "0 \<le> e - 52")
    case True
    have "(2::nat) ^ (blen n - 1) \<le> n" using blen_lower [OF n(1)] .
    then have r1: "(2::real) ^ (blen n - 1) \<le> real n"
      by (metis of_nat_le_iff of_nat_numeral of_nat_power)
    have r2: "nat e = blen n - 1" using bl by (simp add: e_def)
    have r3: "(2::real) ^ nat e \<le> x" unfolding r2 using r1 n(2) by linarith
    have r4: "(2::real) ^ nat (e - 52) \<le> 2 ^ nat e"
      by (rule power_increasing) (use True in auto)
    have "pow2 (e - 52) = 2 ^ nat (e - 52)" using True by (simp add: pow2_def)
    then show ?thesis using r3 r4 by linarith
  next
    case False
    have r5: "1 / 2 ^ nat (- (e - 52)) \<le> (1::real)" by (simp add: divide_le_eq)
    have "pow2 (e - 52) = 1 / 2 ^ nat (- (e - 52))" using False by (simp add: pow2_def)
    then show ?thesis using r5 assms by linarith
  qed
  have pos: "0 < pow2 (e - 52)" by (simp add: pow2_def)
  have "of_int 1 \<le> x / pow2 (e - 52)" using le pos by (simp add: le_divide_eq)
  then have "1 \<le> rhe (x / pow2 (e - 52))" by (rule rhe_ge_int)
  then have nz: "rhe (x / pow2 (e - 52)) \<noteq> 0" by simp
  have pz: "pow2 (e - 52) \<noteq> 0" using pos by simp
  have x0: "x \<noteq> 0" using assms by simp
  show ?thesis
    unfolding rnd_def Let_def m using nz pz x0 by simp
qed

lemma int_to_double_pos:
  assumes "0 < n" and "int_to_double n = Inr d"
  shows "d \<noteq> Fin 0 \<and> d \<noteq> NaN"
proof -
  have "1 \<le> (of_int n :: real)" using assms(1) by simp
  from rnd_ge_1 [OF this] assms(2) show ?thesis
    by (auto simp: int_to_double_def split: double.splits)
qed

lemma fl_div_error: "fl_div x d = Inl e \<Longrightarrow> d = Fin 0 \<and> e = ZeroDivisionError"
  by (cases d; cases x) (auto split: if_splits)

lemma float_div_int_error:
  "0 < n \<Longrightarrow> float_div_int x n = Inl e \<Longrightarrow> e = OverflowError"
  using int_to_double_pos [of n]
  by (auto simp: float_div_int_def int_to_double_def split: sum.splits double.splits
      dest!: fl_div_error)

lemma int_truediv_error:
  "b \<noteq> 0 \<Longrightarrow> int_truediv a b = Inl e \<Longrightarrow> e = OverflowError"
  by (auto simp: int_truediv_def split: double.splits)

lemma avg_brier_error: "avg_brier st = Inl e \<Longrightarrow> e = OverflowError"
  by (auto simp: avg_brier_def split: if_splits dest!: float_div_int_error [rotated])

lemma avg_duration_of_error: "avg_duration_of st = Inl e \<Longrightarrow> e = OverflowError"
  by (auto simp: avg_duration_of_def split: if_splits dest!: float_div_int_error [rotated])

lemma accuracy_of_error: "accuracy_of st = Inl e \<Longrightarrow> e = OverflowError"
  by (auto simp: accuracy_of_def split: if_splits dest!: int_truediv_error [rotated])

lemma avg_brier_val: "avg_brier st = Inr a \<Longrightarrow> avg_val st = a"
  by (simp add: avg_val_def)

section \<open>Float comparisons\<close>

lemma fl_lt_trans: "fl_lt a b \<Longrightarrow> fl_lt b c \<Longrightarrow> fl_lt a c"
  by (cases a; cases b; cases c) auto

lemma fl_lt_not_le: "fl_lt a b \<Longrightarrow> \<not> fl_le b a"
  by (cases a; cases b) auto

lemma fl_le_lt_trans: "fl_le a b \<Longrightarrow> fl_lt b c \<Longrightarrow> fl_lt a c"
  by (cases a; cases b; cases c) auto

lemma fl_lt_irrefl: "\<not> fl_lt a a"
  by (cases a) auto

lemma fl_lt_imp_le: "fl_lt a b \<Longrightarrow> fl_le a b"
  by (cases a; cases b) auto

lemma fl_lt_PInf_cases: "fl_lt a PInf \<longleftrightarrow> (\<exists>x. a = Fin x) \<or> a = NInf"
  by (cases a) auto

lemma fl_le_antisym: "fl_le a b \<Longrightarrow> fl_le b a \<Longrightarrow> a = b"
  by (cases a; cases b) auto

lemma fl_not_lt_le: "fl_lt a PInf \<Longrightarrow> fl_lt b PInf \<Longrightarrow> \<not> fl_lt a b \<Longrightarrow> fl_le b a"
  by (cases a; cases b) auto

section \<open>The selection loop\<close>

lemma select_best_avgs:
  "select_best md bl = Inr bl' \<Longrightarrow> (m, st) \<in> set md \<Longrightarrow> avg_brier st = Inr (avg_val st)"
proof (induction md arbitrary: bl)
  case Nil
  then show ?case by simp
next
  case (Cons x md)
  obtain m0 st0 where x: "x = (m0, st0)" by (cases x)
  from Cons.prems(1) obtain a where a: "avg_brier st0 = Inr a"
    by (cases "avg_brier st0") (auto simp: x)
  show ?case
  proof (cases "(m, st) = x")
    case True
    then show ?thesis using a x by (simp add: avg_val_def)
  next
    case False
    then have mem: "(m, st) \<in> set md" using Cons.prems(2) by simp
    show ?thesis
    proof (cases "fl_lt a (snd bl)")
      case True
      then have "select_best md (Some m0, a) = Inr bl'" using Cons.prems(1) a x by simp
      from Cons.IH [OF this mem] show ?thesis .
    next
      case False
      then have "select_best md bl = Inr bl'" using Cons.prems(1) a x by simp
      from Cons.IH [OF this mem] show ?thesis .
    qed
  qed
qed

lemma select_best_char:
  "select_best md (b, l) = Inr (b', l') \<Longrightarrow>
     ((b', l') = (b, l) \<and> (\<forall>(m, st) \<in> set md. \<not> fl_lt (avg_val st) l)
      \<or> (\<exists>pre m st post. md = pre @ (m, st) # post \<and> b' = Some m \<and> l' = avg_val st \<and>
            fl_lt l' l \<and>
            (\<forall>(m', st') \<in> set pre. \<not> fl_le (avg_val st') l') \<and>
            (\<forall>(m', st') \<in> set post. \<not> fl_lt (avg_val st') l')))"
proof (induction md arbitrary: b l)
  case Nil
  then show ?case by simp
next
  case (Cons x md)
  obtain m st where x: "x = (m, st)" by (cases x)
  from Cons.prems obtain a where a: "avg_brier st = Inr a"
    by (cases "avg_brier st") (auto simp: x)
  then have av: "avg_val st = a" by (simp add: avg_val_def)
  show ?case
  proof (cases "fl_lt (avg_val st) l")
    case True
    have sel: "select_best md (Some m, avg_val st) = Inr (b', l')"
      using Cons.prems True a av by (simp add: x)
    from Cons.IH [OF sel] have
      alt: "(b', l') = (Some m, avg_val st) \<and> (\<forall>(m, s) \<in> set md. \<not> fl_lt (avg_val s) (avg_val st))
        \<or> (\<exists>pre m' st' post. md = pre @ (m', st') # post \<and> b' = Some m' \<and> l' = avg_val st' \<and>
            fl_lt l' (avg_val st) \<and>
            (\<forall>(m', st') \<in> set pre. \<not> fl_le (avg_val st') l') \<and>
            (\<forall>(m', st') \<in> set post. \<not> fl_lt (avg_val st') l'))" .
    from alt show ?thesis
    proof
      assume a: "(b', l') = (Some m, avg_val st) \<and> (\<forall>(m, s) \<in> set md. \<not> fl_lt (avg_val s) (avg_val st))"
      then have "x # md = [] @ (m, st) # md \<and> b' = Some m \<and> l' = avg_val st \<and> fl_lt l' l \<and>
            (\<forall>(m', st') \<in> set []. \<not> fl_le (avg_val st') l') \<and>
            (\<forall>(m', st') \<in> set md. \<not> fl_lt (avg_val st') l')"
        using True x by auto
      then show ?thesis by blast
    next
      assume "\<exists>pre m' st' post. md = pre @ (m', st') # post \<and> b' = Some m' \<and> l' = avg_val st' \<and>
            fl_lt l' (avg_val st) \<and>
            (\<forall>(m', st') \<in> set pre. \<not> fl_le (avg_val st') l') \<and>
            (\<forall>(m', st') \<in> set post. \<not> fl_lt (avg_val st') l')"
      then obtain pre m' st' post where p: "md = pre @ (m', st') # post" "b' = Some m'" "l' = avg_val st'"
            "fl_lt l' (avg_val st)"
            "\<forall>(m', st') \<in> set pre. \<not> fl_le (avg_val st') l'"
            "\<forall>(m', st') \<in> set post. \<not> fl_lt (avg_val st') l'" by blast
      have tr: "fl_lt l' l" using p(4) True by (rule fl_lt_trans)
      have nl: "\<not> fl_le (avg_val st) l'" using p(4) by (rule fl_lt_not_le)
      have "x # md = ((m, st) # pre) @ (m', st') # post \<and> b' = Some m' \<and> l' = avg_val st' \<and> fl_lt l' l \<and>
            (\<forall>(m', st') \<in> set ((m, st) # pre). \<not> fl_le (avg_val st') l') \<and>
            (\<forall>(m', st') \<in> set post. \<not> fl_lt (avg_val st') l')"
        using p tr nl x by auto
      then show ?thesis by blast
    qed
  next
    case False
    have sel: "select_best md (b, l) = Inr (b', l')"
      using Cons.prems False a av by (simp add: x)
    from Cons.IH [OF sel] have
      alt: "(b', l') = (b, l) \<and> (\<forall>(m, s) \<in> set md. \<not> fl_lt (avg_val s) l)
        \<or> (\<exists>pre m' st' post. md = pre @ (m', st') # post \<and> b' = Some m' \<and> l' = avg_val st' \<and>
            fl_lt l' l \<and>
            (\<forall>(m', st') \<in> set pre. \<not> fl_le (avg_val st') l') \<and>
            (\<forall>(m', st') \<in> set post. \<not> fl_lt (avg_val st') l'))" .
    from alt show ?thesis
    proof
      assume "(b', l') = (b, l) \<and> (\<forall>(m, s) \<in> set md. \<not> fl_lt (avg_val s) l)"
      then show ?thesis using False x by auto
    next
      assume "\<exists>pre m' st' post. md = pre @ (m', st') # post \<and> b' = Some m' \<and> l' = avg_val st' \<and>
            fl_lt l' l \<and>
            (\<forall>(m', st') \<in> set pre. \<not> fl_le (avg_val st') l') \<and>
            (\<forall>(m', st') \<in> set post. \<not> fl_lt (avg_val st') l')"
      then obtain pre m' st' post where p: "md = pre @ (m', st') # post" "b' = Some m'" "l' = avg_val st'"
            "fl_lt l' l"
            "\<forall>(m', st') \<in> set pre. \<not> fl_le (avg_val st') l'"
            "\<forall>(m', st') \<in> set post. \<not> fl_lt (avg_val st') l'" by blast
      have nl: "\<not> fl_le (avg_val st) l'"
      proof
        assume "fl_le (avg_val st) l'"
        then have "fl_lt (avg_val st) l" using p(4) by (rule fl_le_lt_trans)
        then show False using False by simp
      qed
      have "x # md = ((m, st) # pre) @ (m', st') # post \<and> b' = Some m' \<and> l' = avg_val st' \<and> fl_lt l' l \<and>
            (\<forall>(m', st') \<in> set ((m, st) # pre). \<not> fl_le (avg_val st') l') \<and>
            (\<forall>(m', st') \<in> set post. \<not> fl_lt (avg_val st') l')"
        using p nl x by auto
      then show ?thesis by blast
    qed
  qed
qed

section \<open>The selected model is the first of lowest average\<close>

lemma first_lowest_iff:
  "first_lowest rs m \<longleftrightarrow>
     (fl_lt (mean_score rs m) PInf \<and>
      (\<exists>pre r post. rs = pre @ r # post \<and> model r = Some m \<and>
          (\<forall>r' \<in> set pre. \<forall>m'. model r' = Some m' \<longrightarrow>
             \<not> fl_le (mean_score rs m') (mean_score rs m))) \<and>
      (\<forall>r' \<in> set rs. \<forall>m'. model r' = Some m' \<longrightarrow>
             \<not> fl_lt (mean_score rs m') (mean_score rs m)))"
  (is "?L \<longleftrightarrow> ?R")
proof
  assume L: ?L
  let ?P = "\<lambda>r. model r \<noteq> Some m"
  from L have "of_model m rs \<noteq> []" by (simp add: first_lowest_def)
  then obtain x where x: "x \<in> set rs" "model x = Some m"
    by (auto simp: of_model_def filter_empty_conv)
  then have "dropWhile ?P rs \<noteq> []" by auto
  then obtain r post where d: "dropWhile ?P rs = r # post" by (cases "dropWhile ?P rs") auto
  have r: "model r = Some m" using hd_dropWhile [of ?P rs] d by auto
  have split: "rs = takeWhile ?P rs @ r # post" using d by (metis takeWhile_dropWhile_id)
  have fin: "fl_lt (mean_score rs m) PInf" using L by (simp add: first_lowest_def)
  have pre: "\<forall>r' \<in> set (takeWhile ?P rs). \<forall>m'. model r' = Some m' \<longrightarrow>
               \<not> fl_le (mean_score rs m') (mean_score rs m)"
    using L by (auto simp: first_lowest_def split: option.splits)
  have all: "\<forall>r' \<in> set rs. \<forall>m'. model r' = Some m' \<longrightarrow>
               \<not> fl_lt (mean_score rs m') (mean_score rs m)"
    using L by (auto simp: first_lowest_def split: option.splits)
  show ?R using split r pre all fin by blast
next
  assume R: ?R
  then obtain pre r post where
    s: "rs = pre @ r # post" "model r = Some m" and
    pre: "\<forall>r' \<in> set pre. \<forall>m'. model r' = Some m' \<longrightarrow>
            \<not> fl_le (mean_score rs m') (mean_score rs m)"
    by blast
  have fin: "fl_lt (mean_score rs m) PInf" using R by blast
  then have refl: "fl_le (mean_score rs m) (mean_score rs m)"
    by (cases "mean_score rs m") auto
  have "\<forall>x \<in> set pre. model x \<noteq> Some m" using pre refl by blast
  then have tw: "takeWhile (\<lambda>r. model r \<noteq> Some m) rs = pre"
    using s by (simp add: takeWhile_tail)
  have ne: "of_model m rs \<noteq> []" using s by (auto simp: of_model_def filter_empty_conv)
  show ?L
    unfolding first_lowest_def tw using ne pre R by (auto split: option.splits)
qed

lemma first_seen_split:
  "first_seen (List.map_filter f xs) = A @ k # B \<Longrightarrow>
   \<exists>P x Q. xs = P @ x # Q \<and> f x = Some k \<and> (\<forall>p \<in> set P. \<forall>k'. f p = Some k' \<longrightarrow> k' \<in> set A)"
proof (induction xs arbitrary: B rule: rev_induct)
  case Nil
  then show ?case by (simp add: List.map_filter_def)
next
  case (snoc y xs)
  show ?case
  proof (cases "f y")
    case None
    with snoc.prems have "first_seen (List.map_filter f xs) = A @ k # B"
      by (simp add: map_filter_snoc)
    from snoc.IH [OF this] obtain P x Q where
      "xs = P @ x # Q" "f x = Some k" "\<forall>p \<in> set P. \<forall>k'. f p = Some k' \<longrightarrow> k' \<in> set A" by blast
    then have "xs @ [y] = P @ x # (Q @ [y]) \<and> f x = Some k \<and>
        (\<forall>p \<in> set P. \<forall>k'. f p = Some k' \<longrightarrow> k' \<in> set A)" by simp
    then show ?thesis by blast
  next
    case (Some v)
    show ?thesis
    proof (cases "v \<in> set (List.map_filter f xs)")
      case True
      with Some snoc.prems have "first_seen (List.map_filter f xs) = A @ k # B"
        by (simp add: map_filter_snoc first_seen_snoc)
      from snoc.IH [OF this] obtain P x Q where
        "xs = P @ x # Q" "f x = Some k" "\<forall>p \<in> set P. \<forall>k'. f p = Some k' \<longrightarrow> k' \<in> set A" by blast
      then have "xs @ [y] = P @ x # (Q @ [y]) \<and> f x = Some k \<and>
          (\<forall>p \<in> set P. \<forall>k'. f p = Some k' \<longrightarrow> k' \<in> set A)" by simp
      then show ?thesis by blast
    next
      case False
      with Some snoc.prems have eq: "first_seen (List.map_filter f xs) @ [v] = A @ k # B"
        by (simp add: map_filter_snoc first_seen_snoc)
      show ?thesis
      proof (cases B rule: rev_cases)
        case Nil
        with eq have a: "first_seen (List.map_filter f xs) = A" and kv: "k = v" by auto
        have "\<forall>p \<in> set xs. \<forall>k'. f p = Some k' \<longrightarrow> k' \<in> set A"
          using a set_first_seen [of "List.map_filter f xs"] by (auto simp: set_map_filter)
        then have "xs @ [y] = xs @ y # [] \<and> f y = Some k \<and>
          (\<forall>p \<in> set xs. \<forall>k'. f p = Some k' \<longrightarrow> k' \<in> set A)" using Some kv by simp
        then show ?thesis by blast
      next
        case (snoc B' z)
        with eq have "first_seen (List.map_filter f xs) = A @ k # B'" by auto
        from snoc.IH [OF this] obtain P x Q where
          "xs = P @ x # Q" "f x = Some k" "\<forall>p \<in> set P. \<forall>k'. f p = Some k' \<longrightarrow> k' \<in> set A" by blast
        then have "xs @ [y] = P @ x # (Q @ [y]) \<and> f x = Some k \<and>
            (\<forall>p \<in> set P. \<forall>k'. f p = Some k' \<longrightarrow> k' \<in> set A)" by simp
        then show ?thesis by blast
      qed
    qed
  qed
qed

lemma avg_val_group_stats:
  "rs \<noteq> [] \<Longrightarrow> avg_brier (group_stats rs) = Inr a \<Longrightarrow> a = mean (map score_of rs)"
  by (simp add: avg_brier_def group_stats_def mean_def)

lemma model_groups_elem:
  "(m, st) \<in> set (model_groups rs) \<Longrightarrow> st = group_stats (of_model m rs) \<and> of_model m rs \<noteq> []"
  by (auto simp: model_groups_def set_map_filter of_model_def filter_empty_conv)

lemma model_groups_avg:
  assumes "(m, st) \<in> set (model_groups rs)" and "avg_brier st = Inr a"
  shows "a = mean_score rs m"
proof -
  from model_groups_elem [OF assms(1)] have
    st: "st = group_stats (of_model m rs)" and ne: "of_model m rs \<noteq> []" by simp_all
  from avg_val_group_stats [OF ne] assms(2) show ?thesis by (simp add: st mean_score_def)
qed

lemma map_fst_model_groups: "map fst (model_groups rs) = first_seen (List.map_filter model rs)"
  by (simp add: model_groups_def comp_def)

lemma model_groups_mem:
  "model r = Some m \<Longrightarrow> r \<in> set rs \<Longrightarrow> (m, group_stats (of_model m rs)) \<in> set (model_groups rs)"
  by (force simp: model_groups_def set_map_filter)

text \<open>
  What the selection loop leaves, on the groups of a scope: a model that is the
  first of lowest average, with that average, or no model when no average is below
  infinity.
\<close>

lemma select_best_first_lowest:
  assumes "select_best (model_groups rs) (None, PInf) = Inr (b', l')"
  shows "(case b' of
            None \<Rightarrow> l' = PInf \<and> no_finite_average rs
          | Some m \<Rightarrow> l' = mean_score rs m \<and> first_lowest rs m)"
proof -
  let ?md = "model_groups rs"
  have av: "avg_val st = mean_score rs m" if "(m, st) \<in> set ?md" for m st
  proof -
    from select_best_avgs [OF assms that] have "avg_brier st = Inr (avg_val st)" .
    from model_groups_avg [OF that this] show ?thesis .
  qed
  from select_best_char [OF assms] have
    alt: "(b', l') = (None, PInf) \<and> (\<forall>(m, st) \<in> set ?md. \<not> fl_lt (avg_val st) PInf)
      \<or> (\<exists>pre m st post. ?md = pre @ (m, st) # post \<and> b' = Some m \<and> l' = avg_val st \<and>
            fl_lt l' PInf \<and>
            (\<forall>(m', st') \<in> set pre. \<not> fl_le (avg_val st') l') \<and>
            (\<forall>(m', st') \<in> set post. \<not> fl_lt (avg_val st') l'))" .
  from alt show ?thesis
  proof
    assume A: "(b', l') = (None, PInf) \<and> (\<forall>(m, st) \<in> set ?md. \<not> fl_lt (avg_val st) PInf)"
    have "no_finite_average rs"
      unfolding no_finite_average_def
    proof (intro ballI)
      fix r assume r: "r \<in> set rs"
      show "case model r of None \<Rightarrow> True | Some m \<Rightarrow> \<not> fl_lt (mean_score rs m) PInf"
      proof (cases "model r")
        case None
        then show ?thesis by simp
      next
        case (Some m)
        have mem: "(m, group_stats (of_model m rs)) \<in> set ?md"
          by (rule model_groups_mem [OF Some r])
        have "\<not> fl_lt (avg_val (group_stats (of_model m rs))) PInf"
          using A mem by blast
        then show ?thesis using av [OF mem] Some by simp
      qed
    qed
    then show ?thesis using A by simp
  next
    assume "\<exists>pre m st post. ?md = pre @ (m, st) # post \<and> b' = Some m \<and> l' = avg_val st \<and>
            fl_lt l' PInf \<and>
            (\<forall>(m', st') \<in> set pre. \<not> fl_le (avg_val st') l') \<and>
            (\<forall>(m', st') \<in> set post. \<not> fl_lt (avg_val st') l')"
    then obtain pre m st post where
      split: "?md = pre @ (m, st) # post" and b': "b' = Some m" and l': "l' = avg_val st" and
      fin: "fl_lt l' PInf" and
      pre: "\<forall>(m', st') \<in> set pre. \<not> fl_le (avg_val st') l'" and
      post: "\<forall>(m', st') \<in> set post. \<not> fl_lt (avg_val st') l'" by blast
    have mem: "(m, st) \<in> set ?md" using split by simp
    have l'm: "l' = mean_score rs m" using av [OF mem] l' by simp
    have lt: "\<not> fl_le (mean_score rs m') (mean_score rs m)" if "m' \<in> fst ` set pre" for m'
    proof -
      from that obtain st' where p: "(m', st') \<in> set pre" by auto
      then have "(m', st') \<in> set ?md" using split by simp
      from av [OF this] have "avg_val st' = mean_score rs m'" .
      moreover have "\<not> fl_le (avg_val st') l'" using bspec [OF pre p] by simp
      ultimately show ?thesis using l'm by simp
    qed
    have le: "\<not> fl_lt (mean_score rs m') (mean_score rs m)" if "(m', st') \<in> set ?md" for m' st'
    proof -
      from that split have "(m', st') \<in> set pre \<or> (m', st') = (m, st) \<or> (m', st') \<in> set post"
        by auto
      moreover have a: "avg_val st' = mean_score rs m'" using av [OF that] .
      moreover have "\<not> fl_lt (mean_score rs m') (mean_score rs m)" if "(m', st') \<in> set pre"
        using bspec [OF pre that] a l'm fl_lt_imp_le by auto
      moreover have "\<not> fl_lt (mean_score rs m') (mean_score rs m)" if "(m', st') \<in> set post"
        using bspec [OF post that] a l'm by simp
      moreover have "\<not> fl_lt (mean_score rs m) (mean_score rs m)" by (rule fl_lt_irrefl)
      ultimately show ?thesis by blast
    qed
    have "first_seen (List.map_filter model rs) = map fst pre @ m # map fst post"
      using split map_fst_model_groups [of rs] by simp
    from first_seen_split [OF this] obtain P x Q where
      x: "rs = P @ x # Q" "model x = Some m" and
      P: "\<forall>p \<in> set P. \<forall>k'. model p = Some k' \<longrightarrow> k' \<in> set (map fst pre)" by blast
    have 1: "\<forall>r' \<in> set P. \<forall>m'. model r' = Some m' \<longrightarrow>
               \<not> fl_le (mean_score rs m') (mean_score rs m)"
      using P lt by auto
    have 2: "\<forall>r' \<in> set rs. \<forall>m'. model r' = Some m' \<longrightarrow>
               \<not> fl_lt (mean_score rs m') (mean_score rs m)"
    proof (intro ballI allI impI)
      fix r' m' assume "r' \<in> set rs" "model r' = Some m'"
      then have "(m', group_stats (of_model m' rs)) \<in> set ?md" by (simp add: model_groups_mem)
      then show "\<not> fl_lt (mean_score rs m') (mean_score rs m)" by (rule le)
    qed
    have "first_lowest rs m"
      unfolding first_lowest_iff using x 1 2 fin l'm by blast
    then show ?thesis using b' l'm by simp
  qed
qed

text \<open>At most one model of a scope is the first of lowest average.\<close>

lemma first_lowest_unique:
  assumes "first_lowest rs m" and "first_lowest rs m'"
  shows "m = m'"
proof (rule ccontr)
  assume ne: "m \<noteq> m'"
  from assms(1) obtain pre r post where
    s: "rs = pre @ r # post" "model r = Some m" and
    pre: "\<forall>r' \<in> set pre. \<forall>k. model r' = Some k \<longrightarrow> \<not> fl_le (mean_score rs k) (mean_score rs m)" and
    all: "\<forall>r' \<in> set rs. \<forall>k. model r' = Some k \<longrightarrow> \<not> fl_lt (mean_score rs k) (mean_score rs m)" and
    fin: "fl_lt (mean_score rs m) PInf"
    unfolding first_lowest_iff by blast
  from assms(2) obtain pre' r' post' where
    s': "rs = pre' @ r' # post'" "model r' = Some m'" and
    pre': "\<forall>x \<in> set pre'. \<forall>k. model x = Some k \<longrightarrow> \<not> fl_le (mean_score rs k) (mean_score rs m')" and
    all': "\<forall>x \<in> set rs. \<forall>k. model x = Some k \<longrightarrow> \<not> fl_lt (mean_score rs k) (mean_score rs m')" and
    fin': "fl_lt (mean_score rs m') PInf"
    unfolding first_lowest_iff by blast
  have rin1: "r \<in> set rs" using s(1) by simp
  have rin2: "r' \<in> set rs" using s'(1) by simp
  note rin = rin1 rin2
  have n1: "\<not> fl_lt (mean_score rs m') (mean_score rs m)" using all rin(2) s'(2) by blast
  have n2: "\<not> fl_lt (mean_score rs m) (mean_score rs m')" using all' rin(1) s(2) by blast
  have le1: "fl_le (mean_score rs m) (mean_score rs m')"
    using fl_not_lt_le [OF fin' fin n1] .
  have le2: "fl_le (mean_score rs m') (mean_score rs m)"
    using fl_not_lt_le [OF fin fin' n2] .
  have a: "r \<notin> set pre'" using pre' s(2) le1 by blast
  have b: "r' \<notin> set pre" using pre s'(2) le2 by blast
  have "length pre = length pre'"
  proof (rule ccontr)
    assume "length pre \<noteq> length pre'"
    then consider "length pre < length pre'" | "length pre' < length pre" by linarith
    then show False
    proof cases
      case 1
      have "rs ! length pre = r" using \<open>rs = pre @ r # post\<close> by simp
      moreover have "rs ! length pre = pre' ! length pre"
        using \<open>rs = pre' @ r' # post'\<close> 1 by (simp add: nth_append)
      ultimately show False using a 1 by (metis nth_mem)
    next
      case 2
      have "rs ! length pre' = r'" using \<open>rs = pre' @ r' # post'\<close> by simp
      moreover have "rs ! length pre' = pre ! length pre'"
        using \<open>rs = pre @ r # post\<close> 2 by (simp add: nth_append)
      ultimately show False using b 2 by (metis nth_mem)
    qed
  qed
  then have "r = r'" using s(1) s'(1) by (metis nth_append_length)
  then show False using s(2) s'(2) ne by simp
qed

section \<open>The errors of the summary\<close>

lemma select_best_error: "select_best md bl = Inl e \<Longrightarrow> e = OverflowError"
proof (induction md arbitrary: bl)
  case Nil
  then show ?case by simp
next
  case (Cons x md)
  obtain m st where x: "x = (m, st)" by (cases x)
  show ?case
  proof (cases "avg_brier st")
    case (Inl e')
    then have "e' = e" using Cons.prems x by simp
    then show ?thesis using avg_brier_error [OF Inl] by simp
  next
    case (Inr a)
    then show ?thesis using Cons.prems Cons.IH x by (auto split: if_splits)
  qed
qed

lemma winner_entry_error: "winner_entry md bl = Inl e \<Longrightarrow> e = OverflowError"
  by (auto simp: winner_entry_def Let_def split: option.splits if_splits sum.splits
      dest: accuracy_of_error avg_duration_of_error)

lemma scope_winner_error: "scope_winner md = Inl e \<Longrightarrow> e = OverflowError"
  by (auto simp: scope_winner_def split: sum.splits dest: select_best_error winner_entry_error)

lemma per_category_loop_error: "per_category_loop cms acc = Inl e \<Longrightarrow> e = OverflowError"
proof (induction cms arbitrary: acc)
  case Nil
  then show ?case by simp
next
  case (Cons x cms)
  obtain c md where x: "x = (c, md)" by (cases x)
  show ?case
  proof (cases "scope_winner md")
    case (Inl e')
    then have "e' = e" using Cons.prems x by simp
    then show ?thesis using scope_winner_error [OF Inl] by simp
  next
    case (Inr ow)
    then show ?thesis using Cons.prems Cons.IH x by (cases ow) auto
  qed
qed

lemma table_row_error: "table_row ms = Inl e \<Longrightarrow> e = OverflowError"
  by (auto simp: table_row_def split: sum.splits
      dest: avg_brier_error accuracy_of_error avg_duration_of_error)

lemma table_loop_error: "table_loop md acc = Inl e \<Longrightarrow> e = OverflowError"
proof (induction md arbitrary: acc)
  case Nil
  then show ?case by simp
next
  case (Cons x md)
  show ?case
  proof (cases "table_row x")
    case (Inl e')
    then have "e' = e" using Cons.prems by simp
    then show ?thesis using table_row_error [OF Inl] by simp
  next
    case (Inr rw)
    then show ?thesis using Cons.prems Cons.IH by auto
  qed
qed

text \<open>
  The summary fails only on a record without the \<open>model\<close> or \<open>category\<close> key, or on a
  number beyond the double range.
\<close>

lemma build_summary_Inl:
  assumes "build_summary rs = Inl e"
  shows "e = KeyError ''model'' \<or> e = KeyError ''category'' \<or> e = OverflowError"
proof (cases "aggregate rs ([], [])")
  case (Inl e')
  then have "e' = e" using assms by (simp add: build_summary_def)
  then show ?thesis using aggregate_Inl [OF Inl] by simp
next
  case s: (Inr s)
  show ?thesis
  proof (cases "per_category_loop (fst s) []")
    case (Inl e')
    then have "e' = e" using assms s by (simp add: build_summary_def)
    then show ?thesis using per_category_loop_error [OF Inl] by simp
  next
    case pc: (Inr pc)
    show ?thesis
    proof (cases "scope_winner (snd s)")
      case (Inl e')
      then have "e' = e" using assms s pc by (simp add: build_summary_def)
      then show ?thesis using scope_winner_error [OF Inl] by simp
    next
      case ow: (Inr ow)
      show ?thesis
      proof (cases "table_loop (sorted_items (snd s)) []")
        case (Inl e')
        then have "e' = e" using assms s pc ow by (simp add: build_summary_def)
        then show ?thesis using table_loop_error [OF Inl] by simp
      next
        case (Inr t)
        then show ?thesis using assms s pc ow by (simp add: build_summary_def)
      qed
    qed
  qed
qed

lemma build_summary_not_well_keyed:
  assumes "\<not> well_keyed rs"
  shows "\<exists>e. build_summary rs = Inl e"
proof -
  from aggregate_rejects [OF assms] obtain e where "aggregate rs ([], []) = Inl e" by blast
  then show ?thesis by (simp add: build_summary_def)
qed

section \<open>The ingestion loop\<close>

lemma load_lines_Inr_iff: "load_lines loads ls = Inr rs \<longleftrightarrow> map loads ls = map Inr rs"
proof (induction ls arbitrary: rs)
  case Nil
  then show ?case by auto
next
  case (Cons l ls)
  show ?case
  proof (cases "loads l")
    case (Inl msg)
    then show ?thesis by (cases rs) auto
  next
    case (Inr r)
    then show ?thesis using Cons.IH by (cases rs; cases "load_lines loads ls") auto
  qed
qed

lemma load_lines_first_failure:
  "\<forall>x \<in> set pre. \<not> isl (loads x) \<Longrightarrow> loads l = Inl msg \<Longrightarrow>
   load_lines loads (pre @ l # post) = Inl (JSONDecodeError msg)"
proof (induction pre)
  case Nil
  then show ?case by simp
next
  case (Cons x pre)
  then show ?case by (cases "loads x") auto
qed

lemma load_lines_Inl:
  "load_lines loads ls = Inl e \<Longrightarrow> \<exists>l \<in> set ls. \<exists>msg. loads l = Inl msg \<and> e = JSONDecodeError msg"
proof (induction ls)
  case Nil
  then show ?case by simp
next
  case (Cons x ls)
  then show ?case by (cases "loads x"; cases "load_lines loads ls") auto
qed

lemma load_lines_failure:
  assumes "l \<in> set ls" and "isl (loads l)"
  shows "\<exists>l' \<in> set ls. \<exists>msg. loads l' = Inl msg \<and> load_lines loads ls = Inl (JSONDecodeError msg)"
proof (cases "load_lines loads ls")
  case (Inl e)
  from load_lines_Inl [OF Inl] show ?thesis using Inl by auto
next
  case (Inr rs)
  then have "map loads ls = map Inr rs" by (simp add: load_lines_Inr_iff)
  then have "loads l \<in> set (map Inr rs)" using assms(1) by (metis image_eqI set_map)
  then show ?thesis using assms(2) by auto
qed

lemma load_lines_cong:
  "map loads1 ls1 = map loads2 ls2 \<Longrightarrow> load_lines loads1 ls1 = load_lines loads2 ls2"
proof (induction ls1 arbitrary: ls2)
  case Nil
  then show ?case by simp
next
  case (Cons l ls1)
  then obtain l2 ls2' where "ls2 = l2 # ls2'" by (cases ls2) auto
  then show ?case using Cons by (auto split: sum.splits)
qed

section \<open>Group sizes, the table and the per-category dict\<close>

lemma map_of_keyed:
  "map_of (map (\<lambda>k. (k, g k)) ks) k = (if k \<in> set ks then Some (g k) else None)"
  by (induction ks) auto

lemma dd_get_model_groups:
  "dd_get (model_groups rs) m new_stats = group_stats (of_model m rs)"
  by (simp add: dd_get_def model_groups_def map_of_keyed of_model_empty group_stats_Nil)

lemma dd_get_category_groups:
  "dd_get (category_groups rs) c [] = model_groups (in_category c rs)"
  by (simp add: dd_get_def category_groups_def map_of_keyed in_category_empty)

lemma indicator_sum_absent:
  "k0 \<notin> set ks \<Longrightarrow> (\<Sum>k\<leftarrow>ks. if k0 = k then (1::int) else 0) = 0"
  by (induction ks) auto

lemma indicator_sum:
  "distinct ks \<Longrightarrow> k0 \<in> set ks \<Longrightarrow> (\<Sum>k\<leftarrow>ks. if k0 = k then (1::int) else 0) = 1"
  by (induction ks) (auto simp: indicator_sum_absent)

lemma partition_count:
  assumes "distinct ks" and "\<forall>r \<in> set rs. \<exists>k \<in> set ks. f r = Some k"
  shows "(\<Sum>k\<leftarrow>ks. int (length (filter (\<lambda>r. f r = Some k) rs))) = int (length rs)"
  using assms(2)
proof (induction rs)
  case Nil
  then show ?case by (simp add: sum_list_0)
next
  case (Cons r rs)
  then obtain k0 where k0: "k0 \<in> set ks" "f r = Some k0" by auto
  have "(\<Sum>k\<leftarrow>ks. int (length (filter (\<lambda>r. f r = Some k) (r # rs))))
        = (\<Sum>k\<leftarrow>ks. (if k0 = k then 1 else 0) + int (length (filter (\<lambda>r. f r = Some k) rs)))"
    using k0 by (intro arg_cong [where f = sum_list] map_cong) auto
  also have "\<dots> = (\<Sum>k\<leftarrow>ks. if k0 = k then 1 else 0)
                   + (\<Sum>k\<leftarrow>ks. int (length (filter (\<lambda>r. f r = Some k) rs)))"
    by (simp add: sum_list_addf)
  also have "\<dots> = 1 + int (length rs)"
    using Cons indicator_sum [OF assms(1) k0(1)] by simp
  finally show ?case by simp
qed

lemma total_count_group_stats [simp]: "total_count (group_stats rs) = int (length rs)"
  by (simp add: group_stats_def)

lemma model_groups_total:
  assumes "\<forall>r \<in> set rs. model r \<noteq> None"
  shows "(\<Sum>(m, st)\<leftarrow>model_groups rs. total_count st) = int (length rs)"
proof -
  have "(\<Sum>(m, st)\<leftarrow>model_groups rs. total_count st)
        = (\<Sum>m\<leftarrow>first_seen (List.map_filter model rs). int (length (filter (\<lambda>r. model r = Some m) rs)))"
    by (simp add: model_groups_def comp_def of_model_def)
  also have "\<dots> = int (length rs)"
    by (rule partition_count) (use assms in \<open>force simp: set_map_filter\<close>)+
  finally show ?thesis .
qed

lemma well_keyed_in_category: "well_keyed rs \<Longrightarrow> well_keyed (in_category c rs)"
  by (simp add: well_keyed_def in_category_def)

lemma category_groups_total:
  assumes "well_keyed rs"
  shows "(\<Sum>(c, md)\<leftarrow>category_groups rs. \<Sum>(m, st)\<leftarrow>md. total_count st) = int (length rs)"
proof -
  have "(\<Sum>(c, md)\<leftarrow>category_groups rs. \<Sum>(m, st)\<leftarrow>md. total_count st)
        = (\<Sum>c\<leftarrow>first_seen (List.map_filter category rs).
             \<Sum>(m, st)\<leftarrow>model_groups (in_category c rs). total_count st)"
    by (simp add: category_groups_def comp_def)
  also have "\<dots> = (\<Sum>c\<leftarrow>first_seen (List.map_filter category rs).
                      int (length (filter (\<lambda>r. category r = Some c) rs)))"
  proof (intro arg_cong [where f = sum_list] map_cong refl)
    fix c
    have "\<forall>r \<in> set (in_category c rs). model r \<noteq> None"
      using well_keyed_in_category [OF assms, of c] by (simp add: well_keyed_def)
    from model_groups_total [OF this]
    show "(\<Sum>(m, st)\<leftarrow>model_groups (in_category c rs). total_count st)
          = int (length (filter (\<lambda>r. category r = Some c) rs))"
      by (simp add: in_category_def)
  qed
  also have "\<dots> = int (length rs)"
    by (rule partition_count) (use assms in \<open>force simp: set_map_filter well_keyed_def\<close>)+
  finally show ?thesis .
qed

lemma table_row_row_of: "table_row ms = Inr rw \<Longrightarrow> row_of ms rw"
  by (auto simp: table_row_def row_of_def split: sum.splits)

lemma table_loop_rows:
  "table_loop md acc = Inr res \<Longrightarrow> \<exists>rows. res = acc @ rows \<and> list_all2 row_of md rows"
proof (induction md arbitrary: acc)
  case Nil
  then show ?case by simp
next
  case (Cons x md)
  from Cons.prems obtain rw where rw: "table_row x = Inr rw"
    by (cases "table_row x") auto
  then have "table_loop md (acc @ [rw]) = Inr res" using Cons.prems by simp
  from Cons.IH [OF this] obtain rows where
    "res = (acc @ [rw]) @ rows" "list_all2 row_of md rows" by blast
  then have "res = acc @ (rw # rows) \<and> list_all2 row_of (x # md) (rw # rows)"
    using table_row_row_of [OF rw] by simp
  then show ?case by blast
qed

lemma build_summary_parts:
  assumes "build_summary rs = Inr S"
  shows "well_keyed rs"
    and "aggregate rs ([], []) = Inr (category_groups rs, model_groups rs)"
    and "per_category_loop (category_groups rs) [] = Inr (per_category S)"
    and "scope_winner (model_groups rs) = Inr (overall_winner S)"
    and "table_loop (sorted_items (model_groups rs)) [] = Inr (model_performance_summary S)"
proof -
  from assms obtain s where s: "aggregate rs ([], []) = Inr s"
    by (auto simp: build_summary_def split: sum.splits)
  from aggregate_Inr_accepts [OF s] have wk: "well_keyed rs" and sc: "scorable rs" by simp_all
  show "well_keyed rs" by (rule wk)
  show "aggregate rs ([], []) = Inr (category_groups rs, model_groups rs)"
    by (rule aggregate_groups [OF wk sc])
  then have "s = (category_groups rs, model_groups rs)" using s by simp
  with assms s show "per_category_loop (category_groups rs) [] = Inr (per_category S)"
    and "scope_winner (model_groups rs) = Inr (overall_winner S)"
    and "table_loop (sorted_items (model_groups rs)) [] = Inr (model_performance_summary S)"
    by (auto simp: build_summary_def split: sum.splits)
qed

lemma map_insort_key: "map f (insort_key f x xs) = insort (f x) (map f xs)"
  by (induction xs) auto

lemma map_sort_key: "map f (sort_key f xs) = sort (map f xs)"
  by (induction xs) (auto simp: map_insort_key)

lemma table_models:
  assumes "build_summary rs = Inr S"
  shows "map row_model (model_performance_summary S) = sort (first_seen (List.map_filter model rs))"
    and "\<forall>rw \<in> set (model_performance_summary S).
           correct_predictions rw + incorrect_predictions rw = int (length (of_model (row_model rw) rs))"
proof -
  let ?t = "model_performance_summary S"
  from table_loop_rows [OF build_summary_parts(5) [OF assms]]
  have la: "list_all2 row_of (sorted_items (model_groups rs)) ?t" by auto
  have "map row_model ?t = map fst (sorted_items (model_groups rs))"
    using la by (induction rule: list_all2_induct) (auto simp: row_of_def)
  also have "\<dots> = sort (map fst (model_groups rs))"
    by (simp add: sorted_items_def map_sort_key)
  finally show "map row_model ?t = sort (first_seen (List.map_filter model rs))"
    by (simp add: map_fst_model_groups)
  show "\<forall>rw \<in> set ?t.
           correct_predictions rw + incorrect_predictions rw = int (length (of_model (row_model rw) rs))"
  proof
    fix rw assume "rw \<in> set ?t"
    with la obtain ms where ms: "ms \<in> set (sorted_items (model_groups rs))" "row_of ms rw"
      by (metis in_set_conv_nth list_all2_conv_all_nth)
    then have "(fst ms, snd ms) \<in> set (model_groups rs)" by (simp add: sorted_items_def)
    from model_groups_elem [OF this] ms(2)
    show "correct_predictions rw + incorrect_predictions rw = int (length (of_model (row_model rw) rs))"
      by (simp add: row_of_def)
  qed
qed




text \<open>What the code reports for a scope, from the records of the scope.\<close>

lemma scope_winner_first_lowest:
  assumes "scope_winner (model_groups rs) = Inr ow"
  shows "\<exists>b l. select_best (model_groups rs) (None, PInf) = Inr (b, l) \<and>
           (case b of
              None \<Rightarrow> no_finite_average rs \<and> ow = None
            | Some m \<Rightarrow>
                l = mean_score rs m \<and> first_lowest rs m \<and>
                (if m = [] then ow = None
                 else \<exists>w. ow = Some w \<and> best_model w = m \<and>
                          brier_score w = py_round (mean_score rs m) 4))"
proof -
  from assms obtain b l where
    sel: "select_best (model_groups rs) (None, PInf) = Inr (b, l)" and
    we: "winner_entry (model_groups rs) (b, l) = Inr ow"
    by (cases "select_best (model_groups rs) (None, PInf)") (auto simp: scope_winner_def)
  note fl = select_best_first_lowest [OF sel]
  show ?thesis
  proof (cases b)
    case None
    then show ?thesis using sel fl we by (simp add: winner_entry_def)
  next
    case (Some m)
    then have m: "l = mean_score rs m" "first_lowest rs m" using fl by simp_all
    have "if m = [] then ow = None
          else \<exists>w. ow = Some w \<and> best_model w = m \<and> brier_score w = py_round (mean_score rs m) 4"
      using we Some m(1)
      by (auto simp: winner_entry_def Let_def split: sum.splits if_splits)
    then show ?thesis using sel Some m by simp
  qed
qed

lemma scope_winner_reported:
  assumes "scope_winner (model_groups rs) = Inr (Some w)"
  shows "first_lowest rs (best_model w) \<and> best_model w \<noteq> [] \<and>
         brier_score w = py_round (mean_score rs (best_model w)) 4"
proof -
  from scope_winner_first_lowest [OF assms] obtain b l where
    c: "case b of
          None \<Rightarrow> no_finite_average rs \<and> Some w = None
        | Some m \<Rightarrow>
            l = mean_score rs m \<and> first_lowest rs m \<and>
            (if m = [] then Some w = None
             else \<exists>w'. Some w = Some w' \<and> best_model w' = m \<and>
                      brier_score w' = py_round (mean_score rs m) 4)" by blast
  then show ?thesis by (cases b) (auto split: if_splits)
qed





section \<open>The keys of the dicts\<close>

lemma map_fst_dd_update:
  "map fst (dd_update k d f kvs) = (if k \<in> fst ` set kvs then map fst kvs else map fst kvs @ [k])"
proof (cases "k \<in> fst ` set kvs")
  case True
  then have "map fst (dd_update k d f kvs) = map fst kvs" by (induction kvs) force+
  then show ?thesis using True by simp
next
  case False
  then have "map fst (dd_update k d f kvs) = map fst kvs @ [k]" by (induction kvs) auto
  then show ?thesis using False by simp
qed

lemma distinct_dict_set: "distinct (map fst kvs) \<Longrightarrow> distinct (map fst (dict_set k v kvs))"
  by (auto simp: dict_set_def map_fst_dd_update)

lemma per_category_loop_distinct:
  "per_category_loop cms acc = Inr res \<Longrightarrow> distinct (map fst acc) \<Longrightarrow> distinct (map fst res)"
proof (induction cms arbitrary: acc)
  case Nil
  then show ?case by simp
next
  case (Cons x cms)
  obtain c md where x: "x = (c, md)" by (cases x)
  from Cons.prems(1) obtain ow where ow: "scope_winner md = Inr ow"
    by (cases "scope_winner md") (auto simp: x)
  show ?case
  proof (cases ow)
    case None
    then have "per_category_loop cms acc = Inr res" using Cons.prems(1) x ow by simp
    from Cons.IH [OF this Cons.prems(2)] show ?thesis .
  next
    case (Some w)
    then have "per_category_loop cms (dict_set c w acc) = Inr res" using Cons.prems(1) x ow by simp
    from Cons.IH [OF this distinct_dict_set [OF Cons.prems(2)]] show ?thesis .
  qed
qed

lemmas rnd_eval = rnd_def binade_def rhe_def pow2_def Let_def blen.simps

lemmas summary_eval =
  build_summary_def add_result_def subscript_def get_def is_correct_def record_brier_score_def
  new_stats_def add_to_stats_def scope_winner_def avg_brier_def winner_entry_def
  dd_get_def accuracy_of_def avg_duration_of_def dict_set_def sorted_items_def table_row_def
  int_to_double_def float_div_int_def int_truediv_def py_sum_def fl_sub_def

section \<open>Claims about a single record\<close>




lemma add_result_first:
  "model r = Some m \<Longrightarrow> category r = Some c \<Longrightarrow>
   add_result r ([], []) =
     (case record_brier_score (get (confidence r) (Fin 0))
             (is_correct c (get (intent r) ''unknown'')) of
        Inl e \<Rightarrow> Inl e
      | Inr b \<Rightarrow>
          Inr ([(c, [(m, \<lparr>brier_scores = [b],
                          correct_count = is_correct c (get (intent r) ''unknown''),
                          total_count = 1,
                          durations = [get (duration r) (Fin 0)]\<rparr>)])],
               [(m, \<lparr>brier_scores = [b],
                     correct_count = is_correct c (get (intent r) ''unknown''),
                     total_count = 1,
                     durations = [get (duration r) (Fin 0)]\<rparr>)]))"
  by (simp add: add_result_def subscript_def Let_def new_stats_def add_to_stats_def
      split: sum.splits)




lemma add_result_fill_defaults: "add_result (fill_defaults r) s = add_result r s"
  by (simp add: add_result_def fill_defaults_def get_def subscript_def predicted_of_def
      confidence_of_def duration_of_def split: option.splits)

lemma aggregate_fill_defaults: "aggregate (map fill_defaults rs) s = aggregate rs s"
  by (induction rs arbitrary: s) (simp_all add: add_result_fill_defaults split: sum.splits)

lemma add_result_all_absent:
  assumes "model r = Some m" and "category r = Some c"
    and "intent r = None" and "confidence r = None" and "duration r = None"
  shows "add_result r ([], []) =
           Inr ([(c, [(m, \<lparr>brier_scores = [Fin (if c = ''unknown'' then 1 else 0)],
                           correct_count = (if c = ''unknown'' then 1 else 0),
                           total_count = 1, durations = [Fin 0]\<rparr>)])],
                [(m, \<lparr>brier_scores = [Fin (if c = ''unknown'' then 1 else 0)],
                      correct_count = (if c = ''unknown'' then 1 else 0),
                      total_count = 1, durations = [Fin 0]\<rparr>)])"
proof -
  have "record_brier_score (Fin 0) 1 = Inr (Fin 1)" "record_brier_score (Fin 0) 0 = Inr (Fin 0)"
    by (simp_all add: record_brier_score_def fl_sub_def rnd_eval)
  then show ?thesis
    using assms by (simp add: add_result_first get_def is_correct_def)
qed

text \<open>
  Claim C6. A record without the \<open>intent\<close> field is aggregated as one whose predicted
  label is \<open>unknown\<close>, a record without \<open>confidence\<close> as one with confidence 0.0, a
  record without \<open>duration\<close> as one with duration 0.0. A record with none of the three
  enters its two groups with the score 0.0 (1.0 when its category is itself \<open>unknown\<close>),
  counted incorrect (correct when its category is \<open>unknown\<close>), with duration 0.0; the
  loop body computes from the values with the defaults filled in; and neither the loop
  body nor the summary can tell a record from the same record with the defaults written
  out.
\<close>

theorem documented_defaults:
  "(model r = Some m \<and> category r = Some c \<and>
    intent r = None \<and> confidence r = None \<and> duration r = None \<longrightarrow>
      add_result r ([], []) =
        Inr ([(c, [(m, \<lparr>brier_scores = [Fin (if c = ''unknown'' then 1 else 0)],
                        correct_count = (if c = ''unknown'' then 1 else 0),
                        total_count = 1, durations = [Fin 0]\<rparr>)])],
             [(m, \<lparr>brier_scores = [Fin (if c = ''unknown'' then 1 else 0)],
                   correct_count = (if c = ''unknown'' then 1 else 0),
                   total_count = 1, durations = [Fin 0]\<rparr>)])) \<and>
   (model r = Some m \<and> category r = Some c \<longrightarrow>
      add_result r s =
        (case record_brier_score (case confidence r of None \<Rightarrow> Fin 0 | Some x \<Rightarrow> x)
                (if c = (case intent r of None \<Rightarrow> ''unknown'' | Some p \<Rightarrow> p) then 1 else 0) of
           Inl e \<Rightarrow> Inl e
         | Inr b \<Rightarrow>
             Inr (dd_update c []
                    (dd_update m new_stats
                       (add_to_stats b
                          (if c = (case intent r of None \<Rightarrow> ''unknown'' | Some p \<Rightarrow> p)
                           then 1 else 0)
                          (case duration r of None \<Rightarrow> Fin 0 | Some x \<Rightarrow> x)))
                    (fst s),
                  dd_update m new_stats
                    (add_to_stats b
                       (if c = (case intent r of None \<Rightarrow> ''unknown'' | Some p \<Rightarrow> p)
                        then 1 else 0)
                       (case duration r of None \<Rightarrow> Fin 0 | Some x \<Rightarrow> x))
                    (snd s)))) \<and>
   add_result (r\<lparr>intent := None\<rparr>) s = add_result (r\<lparr>intent := Some ''unknown''\<rparr>) s \<and>
   add_result (r\<lparr>confidence := None\<rparr>) s = add_result (r\<lparr>confidence := Some (Fin 0)\<rparr>) s \<and>
   add_result (r\<lparr>duration := None\<rparr>) s = add_result (r\<lparr>duration := Some (Fin 0)\<rparr>) s \<and>
   add_result (fill_defaults r) s = add_result r s \<and>
   build_summary (map fill_defaults rs) = build_summary rs"
proof -
  have 1: "model r = Some m \<and> category r = Some c \<and>
    intent r = None \<and> confidence r = None \<and> duration r = None \<longrightarrow>
      add_result r ([], []) =
        Inr ([(c, [(m, \<lparr>brier_scores = [Fin (if c = ''unknown'' then 1 else 0)],
                        correct_count = (if c = ''unknown'' then 1 else 0),
                        total_count = 1, durations = [Fin 0]\<rparr>)])],
             [(m, \<lparr>brier_scores = [Fin (if c = ''unknown'' then 1 else 0)],
                   correct_count = (if c = ''unknown'' then 1 else 0),
                   total_count = 1, durations = [Fin 0]\<rparr>)])"
    using add_result_all_absent [of r m c] by blast
  have 2: "model r = Some m \<and> category r = Some c \<longrightarrow>
      add_result r s =
        (case record_brier_score (case confidence r of None \<Rightarrow> Fin 0 | Some x \<Rightarrow> x)
                (if c = (case intent r of None \<Rightarrow> ''unknown'' | Some p \<Rightarrow> p) then 1 else 0) of
           Inl e \<Rightarrow> Inl e
         | Inr b \<Rightarrow>
             Inr (dd_update c []
                    (dd_update m new_stats
                       (add_to_stats b
                          (if c = (case intent r of None \<Rightarrow> ''unknown'' | Some p \<Rightarrow> p)
                           then 1 else 0)
                          (case duration r of None \<Rightarrow> Fin 0 | Some x \<Rightarrow> x)))
                    (fst s),
                  dd_update m new_stats
                    (add_to_stats b
                       (if c = (case intent r of None \<Rightarrow> ''unknown'' | Some p \<Rightarrow> p)
                        then 1 else 0)
                       (case duration r of None \<Rightarrow> Fin 0 | Some x \<Rightarrow> x))
                    (snd s)))"
    by (simp add: add_result_def subscript_def get_def is_correct_def Let_def
        split: sum.splits)
  have 3: "add_result (r\<lparr>intent := None\<rparr>) s = add_result (r\<lparr>intent := Some ''unknown''\<rparr>) s \<and>
   add_result (r\<lparr>confidence := None\<rparr>) s = add_result (r\<lparr>confidence := Some (Fin 0)\<rparr>) s \<and>
   add_result (r\<lparr>duration := None\<rparr>) s = add_result (r\<lparr>duration := Some (Fin 0)\<rparr>) s"
    by (simp add: add_result_def get_def subscript_def split: option.splits)
  have 4: "build_summary (map fill_defaults rs) = build_summary rs"
    by (simp add: aggregate_fill_defaults build_summary_def)
  show ?thesis using 1 2 3 4 add_result_fill_defaults [of r s] by blast
qed

theorem documented_defaults_witness:
  "add_result \<lparr>model = Some ''m'', category = Some ''time'', intent = None,
                confidence = None, duration = None\<rparr> ([], [])
     = Inr ([(''time'', [(''m'', \<lparr>brier_scores = [Fin 0], correct_count = 0,
                                  total_count = 1, durations = [Fin 0]\<rparr>)])],
            [(''m'', \<lparr>brier_scores = [Fin 0], correct_count = 0,
                      total_count = 1, durations = [Fin 0]\<rparr>)]) \<and>
   build_summary [\<lparr>model = Some ''m'', category = Some ''time'', intent = Some ''unknown'',
                    confidence = Some (Fin 0), duration = Some (Fin 0)\<rparr>]
     = build_summary [\<lparr>model = Some ''m'', category = Some ''time'', intent = None,
                        confidence = None, duration = None\<rparr>] \<and>
   build_summary [\<lparr>model = Some ''m'', category = Some ''time'', intent = None,
                    confidence = None, duration = None\<rparr>]
     = Inr \<lparr>per_category =
              [(''time'', \<lparr>best_model = ''m'', brier_score = Fin 0, accuracy = Fin 0,
                           average_duration = Fin 0\<rparr>)],
            overall_winner = Some \<lparr>best_model = ''m'', brier_score = Fin 0, accuracy = Fin 0,
                                   average_duration = Fin 0\<rparr>,
            model_performance_summary =
              [\<lparr>row_model = ''m'', correct_predictions = 0, incorrect_predictions = 1,
                row_accuracy = Fin 0, row_brier_score = Fin 0, row_average_duration = Fin 0\<rparr>]\<rparr>"
proof -
  let ?r = "\<lparr>model = Some ''m'', category = Some ''time'', intent = None,
             confidence = None, duration = None\<rparr>"
  note d = documented_defaults [of ?r "''m''" "''time''" "([], [])" "[?r]"]
  have 1: "add_result ?r ([], [])
     = Inr ([(''time'', [(''m'', \<lparr>brier_scores = [Fin 0], correct_count = 0,
                                  total_count = 1, durations = [Fin 0]\<rparr>)])],
            [(''m'', \<lparr>brier_scores = [Fin 0], correct_count = 0,
                      total_count = 1, durations = [Fin 0]\<rparr>)])"
    using d by simp
  have 2: "build_summary (map fill_defaults [?r]) = build_summary [?r]"
    using d by blast
  have 3: "build_summary [?r]
     = Inr \<lparr>per_category =
              [(''time'', \<lparr>best_model = ''m'', brier_score = Fin 0, accuracy = Fin 0,
                           average_duration = Fin 0\<rparr>)],
            overall_winner = Some \<lparr>best_model = ''m'', brier_score = Fin 0, accuracy = Fin 0,
                                   average_duration = Fin 0\<rparr>,
            model_performance_summary =
              [\<lparr>row_model = ''m'', correct_predictions = 0, incorrect_predictions = 1,
                row_accuracy = Fin 0, row_brier_score = Fin 0, row_average_duration = Fin 0\<rparr>]\<rparr>"
    using 1 by (simp add: summary_eval rnd_eval)
  show ?thesis
    using 1 2 3
    by (simp add: fill_defaults_def predicted_of_def confidence_of_def duration_of_def)
qed

text \<open>
  Claim C10. The confidence is neither validated nor clamped: a record with confidence 2
  on an incorrect prediction has calibration score 4, above 1, and the summary of a log
  with that single record reports the Brier score 4 for its model.
\<close>

theorem unclamped_confidence:
  "record_brier_score (Fin 2) (is_correct ''weather'' ''time'') = Inr (Fin 4) \<and>
   fl_lt (Fin 1) (Fin 4) \<and>
   build_summary [\<lparr>model = Some ''m'', category = Some ''weather'', intent = Some ''time'',
                    confidence = Some (Fin 2), duration = Some (Fin 1)\<rparr>]
   = Inr \<lparr>per_category =
            [(''weather'', \<lparr>best_model = ''m'', brier_score = Fin 4, accuracy = Fin 0,
                            average_duration = Fin 1\<rparr>)],
          overall_winner = Some \<lparr>best_model = ''m'', brier_score = Fin 4, accuracy = Fin 0,
                                 average_duration = Fin 1\<rparr>,
          model_performance_summary =
            [\<lparr>row_model = ''m'', correct_predictions = 0, incorrect_predictions = 1,
              row_accuracy = Fin 0, row_brier_score = Fin 4, row_average_duration = Fin 1\<rparr>]\<rparr>"
  by (simp add: summary_eval rnd_eval)

section \<open>Claims about winner selection and the table\<close>






text \<open>
  The two float scores of that log, and their order.
\<close>

lemma exact_tie_float_scores:
  "record_brier_score (rnd (7 / 10)) 1 = Inr (Fin (6485183463413516 / 2 ^ 56)) \<and>
   record_brier_score (rnd (3 / 10)) 0 = Inr (Fin (6485183463413514 / 2 ^ 56)) \<and>
   fl_lt (Fin (6485183463413514 / 2 ^ 56)) (Fin (6485183463413516 / 2 ^ 56))"
  by (simp add: record_brier_score_def int_to_double_def fl_sub_def rnd_eval)

text \<open>
  A model with an attempt need not win either: the average of a group with a NaN
  confidence is NaN, which is below nothing, and the log of a single such record has no
  winner at all.
\<close>

lemma nan_confidence_no_winner:
  "build_summary
     [\<lparr>model = Some ''m'', category = Some ''time'', intent = Some ''time'',
       confidence = Some NaN, duration = Some (Fin 2)\<rparr>]
   = Inr \<lparr>per_category = [], overall_winner = None,
          model_performance_summary =
            [\<lparr>row_model = ''m'', correct_predictions = 1, incorrect_predictions = 0,
              row_accuracy = Fin 1, row_brier_score = NaN, row_average_duration = Fin 2\<rparr>]\<rparr>"
  by (simp add: summary_eval rnd_eval)

text \<open>
  The test \<open>if best_model:\<close> is the reason for the condition on the identifier: the
  empty string, which the data model excludes as a model identifier, is selected by the
  loop like any other key but is falsy, so no winner entry is written for it.
\<close>

lemma empty_identifier_not_reported:
  "build_summary [\<lparr>model = Some [], category = Some ''time'', intent = Some ''time'',
                    confidence = Some (Fin 1), duration = Some (Fin 2)\<rparr>]
   = Inr \<lparr>per_category = [], overall_winner = None,
          model_performance_summary =
            [\<lparr>row_model = [], correct_predictions = 1, incorrect_predictions = 0,
              row_accuracy = Fin 1, row_brier_score = Fin 0, row_average_duration = Fin 2\<rparr>]\<rparr>"
  by (simp add: summary_eval rnd_eval)

text \<open>
  Claim C3. When the summary is built, the group of a category and model holds exactly
  the records with that category and model, the overall group of a model exactly the
  records of that model, and the group sizes add up to the number of records in both
  dicts: each record is counted in exactly one group of each. The table has one row per
  distinct model of the input, in lexicographic order of the identifiers, and in every
  row correct plus incorrect predictions is the number of attempts of that model.
\<close>

theorem grouping_and_table:
  assumes "build_summary rs = Inr S"
  shows "(\<exists>cms oms. aggregate rs ([], []) = Inr (cms, oms) \<and>
            (\<forall>c m. dd_get (dd_get cms c []) m new_stats
                     = group_stats (of_model m (in_category c rs))) \<and>
            (\<forall>m. dd_get oms m new_stats = group_stats (of_model m rs)) \<and>
            (\<Sum>(c, md)\<leftarrow>cms. \<Sum>(m, st)\<leftarrow>md. total_count st) = int (length rs) \<and>
            (\<Sum>(m, st)\<leftarrow>oms. total_count st) = int (length rs)) \<and>
         sorted (map row_model (model_performance_summary S)) \<and>
         distinct (map row_model (model_performance_summary S)) \<and>
         set (map row_model (model_performance_summary S)) = {m. \<exists>r \<in> set rs. model r = Some m} \<and>
         (\<forall>rw \<in> set (model_performance_summary S).
            correct_predictions rw + incorrect_predictions rw
              = int (length (of_model (row_model rw) rs)))"
proof -
  note p = build_summary_parts [OF assms]
  have m: "\<forall>r \<in> set rs. model r \<noteq> None" using p(1) by (simp add: well_keyed_def)
  have A: "\<exists>cms oms. aggregate rs ([], []) = Inr (cms, oms) \<and>
            (\<forall>c m. dd_get (dd_get cms c []) m new_stats
                     = group_stats (of_model m (in_category c rs))) \<and>
            (\<forall>m. dd_get oms m new_stats = group_stats (of_model m rs)) \<and>
            (\<Sum>(c, md)\<leftarrow>cms. \<Sum>(m, st)\<leftarrow>md. total_count st) = int (length rs) \<and>
            (\<Sum>(m, st)\<leftarrow>oms. total_count st) = int (length rs)"
    using p(2) category_groups_total [OF p(1)] model_groups_total [OF m]
    by (simp add: dd_get_category_groups dd_get_model_groups)
  have t: "map row_model (model_performance_summary S) = sort (first_seen (List.map_filter model rs))"
    by (rule table_models(1) [OF assms])
  have B: "sorted (map row_model (model_performance_summary S))" by (simp add: t)
  have C: "distinct (map row_model (model_performance_summary S))" by (simp add: t)
  have D: "set (map row_model (model_performance_summary S)) = {m. \<exists>r \<in> set rs. model r = Some m}"
    by (simp only: t set_sort set_first_seen set_map_filter)
  show ?thesis using A B C D table_models(2) [OF assms] by blast
qed

theorem grouping_and_table_witness:
  "build_summary
     [\<lparr>model = Some ''b'', category = Some ''time'', intent = Some ''time'',
       confidence = Some (Fin (1 / 2)), duration = Some (Fin 2)\<rparr>,
      \<lparr>model = Some ''a'', category = Some ''time'', intent = Some ''date'',
       confidence = Some (Fin (1 / 2)), duration = Some (Fin 4)\<rparr>]
   = Inr \<lparr>per_category =
            [(''time'', \<lparr>best_model = ''b'', brier_score = Fin (1 / 4), accuracy = Fin 1,
                         average_duration = Fin 2\<rparr>)],
          overall_winner = Some \<lparr>best_model = ''b'', brier_score = Fin (1 / 4), accuracy = Fin 1,
                                 average_duration = Fin 2\<rparr>,
          model_performance_summary =
            [\<lparr>row_model = ''a'', correct_predictions = 0, incorrect_predictions = 1,
              row_accuracy = Fin 0, row_brier_score = Fin (1 / 4), row_average_duration = Fin 4\<rparr>,
             \<lparr>row_model = ''b'', correct_predictions = 1, incorrect_predictions = 0,
              row_accuracy = Fin 1, row_brier_score = Fin (1 / 4), row_average_duration = Fin 2\<rparr>]\<rparr> \<and>
   sorted [''a'', ''b'']"
proof -
  let ?rs = "[\<lparr>model = Some ''b'', category = Some ''time'', intent = Some ''time'',
       confidence = Some (Fin (1 / 2)), duration = Some (Fin 2)\<rparr>,
      \<lparr>model = Some ''a'', category = Some ''time'', intent = Some ''date'',
       confidence = Some (Fin (1 / 2)), duration = Some (Fin 4)\<rparr>]"
  let ?S = "\<lparr>per_category =
            [(''time'', \<lparr>best_model = ''b'', brier_score = Fin (1 / 4), accuracy = Fin 1,
                         average_duration = Fin 2\<rparr>)],
          overall_winner = Some \<lparr>best_model = ''b'', brier_score = Fin (1 / 4), accuracy = Fin 1,
                                 average_duration = Fin 2\<rparr>,
          model_performance_summary =
            [\<lparr>row_model = ''a'', correct_predictions = 0, incorrect_predictions = 1,
              row_accuracy = Fin 0, row_brier_score = Fin (1 / 4), row_average_duration = Fin 4\<rparr>,
             \<lparr>row_model = ''b'', correct_predictions = 1, incorrect_predictions = 0,
              row_accuracy = Fin 1, row_brier_score = Fin (1 / 4), row_average_duration = Fin 2\<rparr>]\<rparr>"
  have bs: "build_summary ?rs = Inr ?S"
    by (simp add: summary_eval rnd_eval)
  from grouping_and_table [OF bs] have "sorted (map row_model (model_performance_summary ?S))"
    by blast
  then show ?thesis using bs by simp
qed

end
